theory Spec2Isabelle
  imports Main "HOL-Library.AList"
begin

section \<open>Read-set discovery of \<open>scripts/slurm_srst2.py\<close>\<close>

text \<open>
  The script is Python 2: a \<open>str\<close> is a byte string, modelled as \<^typ>\<open>string\<close>.
  A dictionary is an association list with distinct keys; \<open>d[k] = v\<close> is
  \<^const>\<open>AList.update\<close> (replace the value in place, or append the new key), \<open>d[k]\<close> is
  \<^const>\<open>map_of\<close>, and \<open>for k in d\<close> visits the keys in list order. Python 2 leaves the
  iteration order of a dictionary unspecified; only the order of the printed warnings
  depends on it (lemma \<open>paired_end_order_independent\<close>). The paths are those of
  \<open>posixpath\<close>.
\<close>

subsection \<open>Library functions the script calls\<close>

text \<open>\<open>p.rfind(c)\<close>: the highest index of \<open>c\<close> in \<open>p\<close>, or \<open>-1\<close>.\<close>

definition rfind :: "string \<Rightarrow> char \<Rightarrow> int" where
  "rfind p c = int (length (dropWhile (\<lambda>x. x \<noteq> c) (rev p))) - 1"

text \<open>\<open>s.rstrip(c)\<close> for a single character \<open>c\<close>.\<close>

definition rstrip :: "char \<Rightarrow> string \<Rightarrow> string" where
  "rstrip c s = rev (dropWhile (\<lambda>x. x = c) (rev s))"

text \<open>
  \<open>os.path.split\<close> of \<open>posixpath\<close>:
  \<^verbatim>\<open>
  i = p.rfind('/') + 1
  head, tail = p[:i], p[i:]
  if head and head != '/'*len(head):
      head = head.rstrip('/')
  return head, tail
  \<close>
\<close>

definition os_path_split :: "string \<Rightarrow> string \<times> string" where
  "os_path_split p =
     (let i = nat (rfind p CHR ''/'' + 1);
          head = take i p;
          tail = drop i p
      in (if head \<noteq> [] \<and> head \<noteq> replicate (length head) CHR ''/''
          then rstrip CHR ''/'' head else head,
          tail))"

text \<open>
  \<open>os.path.splitext\<close> of \<open>posixpath\<close> (\<open>genericpath._splitext\<close> with separator \<open>/\<close>):
  \<^verbatim>\<open>
  sepIndex = p.rfind(sep)
  dotIndex = p.rfind(extsep)
  if dotIndex > sepIndex:
      # skip all leading dots
      filenameIndex = sepIndex + 1
      while filenameIndex < dotIndex:
          if p[filenameIndex] != extsep:
              return p[:dotIndex], p[dotIndex:]
          filenameIndex += 1
  return p, ''
  \<close>
  The loop finds a character other than \<open>.\<close> among \<open>p[sepIndex+1:dotIndex]\<close>.
\<close>

definition os_path_splitext :: "string \<Rightarrow> string \<times> string" where
  "os_path_splitext p =
     (let sepIndex = rfind p CHR ''/'';
          dotIndex = rfind p CHR ''.''
      in if dotIndex > sepIndex \<and>
            filter (\<lambda>x. x \<noteq> CHR ''.'')
              (drop (nat (sepIndex + 1)) (take (nat dotIndex) p)) \<noteq> []
         then (take (nat dotIndex) p, drop (nat dotIndex) p)
         else (p, []))"

text \<open>\<open>str(n)\<close> of a non-negative integer.\<close>

fun str :: "nat \<Rightarrow> string" where
  "str n = (if n < 10 then [char_of (48 + n)]
            else str (n div 10) @ [char_of (48 + n mod 10)])"

declare str.simps [simp del]

subsection \<open>The regular expressions\<close>

text \<open>
  \<open>re.match\<close> anchors a pattern at the start of the string only, and \<open>.\<close> matches any
  character but the line feed. \<open>dotstar k s\<close> is a greedy \<open>.*\<close> followed by the rest of
  the pattern \<open>k\<close>: the backtracking matcher first lets \<open>.*\<close> take one more character,
  and gives the rest of the pattern its turn at this position only when that failed.
  The result is what \<open>.*\<close> matched, with the result of \<open>k\<close>.
\<close>

abbreviation LF :: char where
  "LF \<equiv> CHR 0x0A"

fun dotstar :: "(string \<Rightarrow> 'a option) \<Rightarrow> string \<Rightarrow> (string \<times> 'a) option" where
  "dotstar k [] = map_option (Pair []) (k [])"
| "dotstar k (c # cs) =
     (if c = LF then map_option (Pair []) (k (c # cs))
      else (case dotstar k cs of
              Some (p, y) \<Rightarrow> Some (c # p, y)
            | None \<Rightarrow> map_option (Pair []) (k (c # cs))))"

text \<open>A group \<open>(lit.*)\<close> followed by the rest of the pattern \<open>k\<close>.\<close>

definition lit_dotstar ::
  "string \<Rightarrow> (string \<Rightarrow> 'a option) \<Rightarrow> string \<Rightarrow> (string \<times> 'a) option" where
  "lit_dotstar lit k s =
     (if take (length lit) s = lit
      then map_option (\<lambda>(p, y). (lit @ p, y)) (dotstar k (drop (length lit) s))
      else None)"

text \<open>
  \<open>re.match("(.*).gz", file_name)\<close>, giving \<open>m1.groups()[0]\<close>. The dot before \<open>gz\<close> is
  not escaped and the pattern has no \<open>$\<close>: any character but the line feed, then \<open>gz\<close>,
  anywhere in the name.
\<close>

definition match_gz :: "string \<Rightarrow> string option" where
  "match_gz file_name =
     map_option fst
       (dotstar (\<lambda>r. case r of
                   c # g # z # _ \<Rightarrow>
                     if c \<noteq> LF \<and> g = CHR ''g'' \<and> z = CHR ''z'' then Some () else None
                 | _ \<Rightarrow> None)
          file_name)"

text \<open>
  \<open>re.match("(.*)(_S.*)(_L.*)(_R.*)(_.*)", file_name_before_ext)\<close>, giving
  \<open>m.groups()\<close>.
\<close>

definition match_illumina ::
  "string \<Rightarrow> (string \<times> string \<times> string \<times> string \<times> string) option" where
  "match_illumina s =
     map_option (\<lambda>(g1, g2, g3, g4, g5, _). (g1, g2, g3, g4, g5))
       (dotstar (lit_dotstar ''_S'' (lit_dotstar ''_L'' (lit_dotstar ''_R''
          (lit_dotstar ''_'' (\<lambda>_. Some ()))))) s)"

text \<open>
  \<open>re.match("(.*)(" + d + ")$", file_name_before_ext)\<close>, giving \<open>m.groups()\<close>, for a
  designator \<open>d\<close> that has no metacharacter of the pattern language, as the defaults
  \<open>_1\<close> and \<open>_2\<close>: then \<open>d\<close> matches itself only. \<open>$\<close> matches at the end of the
  string and before a line feed that ends the string.
\<close>

definition plain_designator :: "string \<Rightarrow> bool" where
  "plain_designator d =
     (filter (\<lambda>c. c \<in> set (CHR 0x5C # ''.^$*+?{}[]|()'')) d = [])"

definition match_designator :: "string \<Rightarrow> string \<Rightarrow> (string \<times> string) option" where
  "match_designator d s =
     dotstar (\<lambda>r. if r = d \<or> r = d @ [LF] then Some d else None) s"

subsection \<open>Filename decomposition\<close>

definition get_readFile_components :: "string \<Rightarrow> string \<times> string \<times> string" where
  "get_readFile_components full_file_path =
     (let (file_path, file_name) = os_path_split full_file_path;
          m1 = match_gz file_name;
          ext = (if m1 \<noteq> None then ''.gz'' else '''');
          file_name = (case m1 of Some g \<Rightarrow> g | None \<Rightarrow> file_name);
          (file_name_before_ext, ext2) = os_path_splitext file_name;
          full_ext = ext2 @ ext
      in (file_path, file_name_before_ext, full_ext))"

text \<open>
  The function has no \<open>raise\<close>, its one partial operation (\<open>m1.groups()\<close>) is guarded
  by \<open>m1 != None\<close>, and \<open>os.path.split\<close>, \<open>re.match\<close> and \<open>os.path.splitext\<close> raise
  nothing on a \<open>str\<close>: as an outcome that is either an error or a triple, every call is
  a triple. \<open>InvalidPathError\<close> is the name the specification gives to a failure of the
  decomposition; the script defines no exception of its own here.
\<close>

datatype error = InvalidPathError

definition get_readFile_components_outcome ::
  "string \<Rightarrow> error + string \<times> string \<times> string" where
  "get_readFile_components_outcome full_file_path =
     Inr (get_readFile_components full_file_path)"

subsection \<open>Read sets\<close>

text \<open>
  A value of \<open>fileSets\<close> is a list of paths (\<open>[fastq]\<close>, \<open>[forward, reverse]\<close>) or, on
  lines 105 and 118 of the script, a path itself.
\<close>

datatype entry = Files "string list" | Bare string

text \<open>The files an entry holds.\<close>

fun entry_files :: "entry \<Rightarrow> string list" where
  "entry_files (Files xs) = xs"
| "entry_files (Bare p) = [p]"

text \<open>
  The attributes of \<open>args\<close> that \<open>read_file_sets\<close> reads. \<open>argparse\<close> leaves an option
  with \<open>nargs='+'\<close> that was not given as \<open>None\<close>.
\<close>

record args =
  input_se :: "string list option"
  input_pe :: "string list option"
  forward :: string
  reverse :: string

text \<open>\<open>if x:\<close> for \<open>None\<close> or a list, and the list that \<open>for fastq in x\<close> runs over.\<close>

definition truthy :: "string list option \<Rightarrow> bool" where
  "truthy x = (case x of None \<Rightarrow> False | Some xs \<Rightarrow> xs \<noteq> [])"

definition items :: "string list option \<Rightarrow> string list" where
  "items x = (case x of None \<Rightarrow> [] | Some xs \<Rightarrow> xs)"

text \<open>
  The local variables of \<open>read_file_sets\<close>, and the lines it has printed. The function
  returns \<open>fileSets\<close>; the two counters are printed only.
\<close>

record state =
  fileSets :: "(string \<times> entry) list"
  num_single_readsets :: nat
  num_paired_readsets :: nat
  forward_reads :: "(string \<times> string) list"
  reverse_reads :: "(string \<times> string) list"
  stdout :: "string list"

definition initial :: state where
  "initial = \<lparr>fileSets = [], num_single_readsets = 0, num_paired_readsets = 0,
     forward_reads = [], reverse_reads = [], stdout = []\<rparr>"

definition py_print :: "string \<Rightarrow> state \<Rightarrow> state" where
  "py_print line st = st\<lparr>stdout := stdout st @ [line]\<rparr>"

text \<open>The body of the loop over \<open>args.input_se\<close> (lines 62 to 68).\<close>

definition single_end_body :: "string \<Rightarrow> state \<Rightarrow> state" where
  "single_end_body fastq st =
     (let (file_path, file_name_before_ext, full_ext) = get_readFile_components fastq;
          st = (case match_illumina file_name_before_ext of
                  None \<Rightarrow>
                    st\<lparr>fileSets := AList.update file_name_before_ext (Files [fastq]) (fileSets st)\<rparr>
                | Some (g1, g2, g3, g4, g5) \<Rightarrow>
                    st\<lparr>fileSets := AList.update g1 (Files [fastq]) (fileSets st)\<rparr>)
      in st\<lparr>num_single_readsets := num_single_readsets st + 1\<rparr>)"

text \<open>The body of the loop over \<open>args.input_pe\<close> (lines 77 to 106).\<close>

definition undetermined :: "string \<Rightarrow> string" where
  "undetermined fastq =
     ''Could not determine forward/reverse read status for input file '' @ fastq"

definition miseq_hint :: string where
  "miseq_hint = ''  this file appears to match the MiSeq file naming convention (samplename_S1_L001_[R1]_001), but we were expecting [R1] or [R2] to designate read as forward or reverse?''"

definition paired_end_body :: "args \<Rightarrow> string \<Rightarrow> state \<Rightarrow> state" where
  "paired_end_body args fastq st =
     (let (file_path, file_name_before_ext, full_ext) = get_readFile_components fastq
      in case match_illumina file_name_before_ext of
           None \<Rightarrow>
             (case match_designator (forward args) file_name_before_ext of
                Some (baseName, read) \<Rightarrow>
                  st\<lparr>forward_reads := AList.update baseName fastq (forward_reads st)\<rparr>
              | None \<Rightarrow>
                  (case match_designator (reverse args) file_name_before_ext of
                     Some (baseName, read) \<Rightarrow>
                       st\<lparr>reverse_reads := AList.update baseName fastq (reverse_reads st)\<rparr>
                   | None \<Rightarrow> py_print (undetermined fastq) st))
         | Some (baseName, g2, g3, read, g5) \<Rightarrow>
             if read = ''_R1''
             then st\<lparr>forward_reads := AList.update baseName fastq (forward_reads st)\<rparr>
             else if read = ''_R2''
             then st\<lparr>reverse_reads := AList.update baseName fastq (reverse_reads st)\<rparr>
             else (py_print miseq_hint (py_print (undetermined fastq) st))
                    \<lparr>fileSets := AList.update file_name_before_ext (Bare fastq) (fileSets st),
                     num_single_readsets := num_single_readsets st + 1\<rparr>)"

text \<open>
  The body of the loop over \<open>forward_reads\<close> (lines 109 to 115), at a key of the
  dictionary and the value \<open>forward_reads[sample]\<close> stored under it.
\<close>

definition no_pair :: "string \<Rightarrow> string" where
  "no_pair fastq = ''Warning, could not find pair for read:'' @ fastq"

definition store_pair_body :: "string \<times> string \<Rightarrow> state \<Rightarrow> state" where
  "store_pair_body item st =
     (let (sample, fwd) = item
      in case map_of (reverse_reads st) sample of
           Some rv \<Rightarrow>
             st\<lparr>fileSets := AList.update sample (Files [fwd, rv]) (fileSets st),
                num_paired_readsets := num_paired_readsets st + 1\<rparr>
         | None \<Rightarrow>
             (py_print (no_pair fwd) st)
               \<lparr>fileSets := AList.update sample (Files [fwd]) (fileSets st),
                num_single_readsets := num_single_readsets st + 1\<rparr>)"

text \<open>
  The body of the loop over \<open>reverse_reads\<close> (lines 117 to 120), at a key and the
  value \<open>reverse_reads[sample]\<close>.
\<close>

definition store_reverse_body :: "string \<times> string \<Rightarrow> state \<Rightarrow> state" where
  "store_reverse_body item st =
     (let (sample, rv) = item
      in if map_of (fileSets st) sample = None
         then (py_print (no_pair rv) st)
                \<lparr>fileSets := AList.update sample (Bare rv) (fileSets st),
                 num_single_readsets := num_single_readsets st + 1\<rparr>
         else st)"

text \<open>Lines 122 to 125.\<close>

definition print_totals :: "state \<Rightarrow> state" where
  "print_totals st =
     (let st = (if num_paired_readsets st > 0
                then py_print (''Total paired readsets found:'' @ str (num_paired_readsets st)) st
                else st)
      in if num_single_readsets st > 0
         then py_print (''Total single reads found:'' @ str (num_single_readsets st)) st
         else st)"

definition paired_end :: "args \<Rightarrow> state \<Rightarrow> state" where
  "paired_end args st =
     (let st = fold (paired_end_body args) (items (input_pe args)) st;
          st = fold store_pair_body (forward_reads st) st
      in fold store_reverse_body (reverse_reads st) st)"

definition read_file_sets :: "args \<Rightarrow> state" where
  "read_file_sets args =
     print_totals
       (if truthy (input_se args)
        then fold single_end_body (items (input_se args)) initial
        else if truthy (input_pe args)
        then paired_end args initial
        else initial)"

subsection \<open>The caller's test on an entry\<close>

text \<open>
  \<open>len(fastq)\<close> and \<open>fastq[i]\<close> of \<open>main\<close> (lines 194 to 200) on a value of \<open>fileSets\<close>:
  of a list, its length and its element; of a path, the number of its characters and
  the one-character string at the index. \<open>None\<close> is the \<open>IndexError\<close>.
\<close>

fun py_len :: "entry \<Rightarrow> nat" where
  "py_len (Files xs) = length xs"
| "py_len (Bare p) = length p"

fun py_item :: "entry \<Rightarrow> nat \<Rightarrow> string option" where
  "py_item (Files xs) i = (if i < length xs then Some (xs ! i) else None)"
| "py_item (Bare p) i = (if i < length p then Some [p ! i] else None)"

text \<open>What lines 195 to 200 append to the command.\<close>

definition main_input_option :: "args \<Rightarrow> entry \<Rightarrow> string option" where
  "main_input_option args fastq =
     (if py_len fastq > 1
      then (case (py_item fastq 0, py_item fastq 1) of
              (Some a, Some b) \<Rightarrow>
                Some ('' --input_pe '' @ a @ '' '' @ b @
                      '' --forward '' @ forward args @ '' --reverse '' @ reverse args)
            | _ \<Rightarrow> None)
      else (case py_item fastq 0 of
              Some a \<Rightarrow> Some ('' --input_se '' @ a)
            | None \<Rightarrow> None))"

subsection \<open>Notions the properties are stated with\<close>

text \<open>The key under which the single-end loop stores a file (lines 62 to 67).\<close>

definition single_end_key :: "string \<Rightarrow> string" where
  "single_end_key fastq =
     (let (file_path, file_name_before_ext, full_ext) = get_readFile_components fastq
      in case match_illumina file_name_before_ext of
           None \<Rightarrow> file_name_before_ext
         | Some (g1, g2, g3, g4, g5) \<Rightarrow> g1)"

text \<open>
  The branch the paired-end loop takes on a file (lines 77 to 106): a forward or a
  reverse read of a sample, a MiSeq name whose \<open>_R\<close> group is neither \<open>_R1\<close> nor \<open>_R2\<close>
  (with the stem it is stored under), or neither.
\<close>

datatype read_class = Forward string | Reverse string | Ambiguous string | Undetermined

definition classify :: "args \<Rightarrow> string \<Rightarrow> read_class" where
  "classify args fastq =
     (let (file_path, file_name_before_ext, full_ext) = get_readFile_components fastq
      in case match_illumina file_name_before_ext of
           None \<Rightarrow>
             (case match_designator (forward args) file_name_before_ext of
                Some (baseName, read) \<Rightarrow> Forward baseName
              | None \<Rightarrow>
                  (case match_designator (reverse args) file_name_before_ext of
                     Some (baseName, read) \<Rightarrow> Reverse baseName
                   | None \<Rightarrow> Undetermined))
         | Some (baseName, g2, g3, read, g5) \<Rightarrow>
             if read = ''_R1'' then Forward baseName
             else if read = ''_R2'' then Reverse baseName
             else Ambiguous file_name_before_ext)"

text \<open>The stems of the files of a list that take the third branch.\<close>

fun ambiguous_stems :: "args \<Rightarrow> string list \<Rightarrow> string list" where
  "ambiguous_stems args [] = []"
| "ambiguous_stems args (fastq # fs) =
     (case classify args fastq of
        Ambiguous stem \<Rightarrow> stem # ambiguous_stems args fs
      | _ \<Rightarrow> ambiguous_stems args fs)"

text \<open>
  The last file of a list that the single-end loop stores under a key, and the last file
  of a list on which the paired-end loop takes a given branch: an assignment to a
  dictionary replaces what an earlier file left under the key.
\<close>

fun last_with_key :: "string list \<Rightarrow> string \<Rightarrow> string option" where
  "last_with_key [] k = None"
| "last_with_key (fastq # fs) k =
     (case last_with_key fs k of
        Some f \<Rightarrow> Some f
      | None \<Rightarrow> if single_end_key fastq = k then Some fastq else None)"

fun last_of_class :: "args \<Rightarrow> string list \<Rightarrow> read_class \<Rightarrow> string option" where
  "last_of_class args [] c = None"
| "last_of_class args (fastq # fs) c =
     (case last_of_class args fs c of
        Some f \<Rightarrow> Some f
      | None \<Rightarrow> if classify args fastq = c then Some fastq else None)"

text \<open>
  Whether a paired-end file of the list \<open>fs\<close> is left in the dictionary when the three
  loops are over. A forward read is, when it is the last forward read of its key: line
  110 or 113 stores it whatever the key held. A reverse read is, when it is the last
  reverse read of its key and the key has a forward read (line 110) or is not the stem of
  a MiSeq name with another \<open>_R\<close> group (line 117 finds the key free). Such a MiSeq name
  is, when it is the last one of its stem and no forward read has the stem as key. A file
  of undetermined direction never is.
\<close>

definition kept :: "args \<Rightarrow> string list \<Rightarrow> string \<Rightarrow> bool" where
  "kept args fs fastq =
     (case classify args fastq of
        Forward k \<Rightarrow> last_of_class args fs (Forward k) = Some fastq
      | Reverse k \<Rightarrow>
          last_of_class args fs (Reverse k) = Some fastq \<and>
          (last_of_class args fs (Forward k) \<noteq> None \<or>
           last_of_class args fs (Ambiguous k) = None)
      | Ambiguous k \<Rightarrow>
          last_of_class args fs (Ambiguous k) = Some fastq \<and>
          last_of_class args fs (Forward k) = None
      | Undetermined \<Rightarrow> False)"

text \<open>The state after the loop over \<open>args.input_pe\<close>, before the pairs are stored.\<close>

definition classified :: "args \<Rightarrow> state" where
  "classified args = fold (paired_end_body args) (items (input_pe args)) initial"

text \<open>
  The two loops over the dictionaries (lines 108 to 120), run over any enumerations
  \<open>fl\<close> and \<open>rl\<close> of their items: Python 2 does not say in which order
  \<open>for sample in forward_reads\<close> visits the keys.
\<close>

definition paired_end_in_order ::
  "args \<Rightarrow> (string \<times> string) list \<Rightarrow> (string \<times> string) list \<Rightarrow> state" where
  "paired_end_in_order args fl rl =
     fold store_reverse_body rl (fold store_pair_body fl (classified args))"

text \<open>The number of entries of a dictionary that hold \<open>n\<close> files.\<close>

definition entries_holding :: "nat \<Rightarrow> (string \<times> entry) list \<Rightarrow> nat" where
  "entries_holding n d = length (filter (\<lambda>item. length (entry_files (snd item)) = n) d)"

section \<open>Properties\<close>

subsection \<open>The regular expressions\<close>

text \<open>
  What \<open>.*\<close> matched has no line feed, and the rest of the pattern matched what
  follows it. When no split of the string lets the rest of the pattern match, there is no
  match; and \<open>.*\<close> takes a line-free prefix when the rest of the pattern matches
  behind it and behind no longer prefix.
\<close>

lemma dotstar_Cons:
  "dotstar k (c # cs) =
     (case (if c = LF then None else dotstar k cs) of
        Some (p, y) \<Rightarrow> Some (c # p, y)
      | None \<Rightarrow> map_option (Pair []) (k (c # cs)))"
  by simp

lemma dotstar_SomeD:
  "dotstar k s = Some (p, y) \<Longrightarrow> \<exists>r. s = p @ r \<and> k r = Some y \<and> LF \<notin> set p"
proof (induction s arbitrary: p y)
  case Nil
  then show ?case by auto
next
  case (Cons c cs)
  show ?case
  proof (cases "if c = LF then None else dotstar k cs")
    case None
    with Cons.prems have "p = []" "k (c # cs) = Some y"
      by (auto simp: dotstar_Cons simp del: dotstar.simps)
    then show ?thesis by simp
  next
    case (Some a)
    obtain p0 y0 where a: "a = (p0, y0)" by (cases a)
    from Some a have ne: "c \<noteq> LF" and d: "dotstar k cs = Some (p0, y0)"
      by (auto split: if_splits)
    from Cons.prems Some a have py: "p = c # p0" "y = y0"
      by (auto simp: dotstar_Cons simp del: dotstar.simps)
    from Cons.IH [OF d] obtain r where "cs = p0 @ r" "k r = Some y0" "LF \<notin> set p0"
      by blast
    with py ne show ?thesis by simp
  qed
qed

lemma dotstar_None:
  "(\<And>p r. s = p @ r \<Longrightarrow> k r = None) \<Longrightarrow> dotstar k s = None"
proof (induction s)
  case Nil
  then show ?case by simp
next
  case (Cons c cs)
  have "k (c # cs) = None" using Cons.prems [of "[]" "c # cs"] by simp
  moreover have "dotstar k cs = None"
  proof (rule Cons.IH)
    fix p r assume "cs = p @ r"
    then show "k r = None" using Cons.prems [of "c # p" r] by simp
  qed
  ultimately show ?case by (auto simp: dotstar_Cons simp del: dotstar.simps)
qed

lemma dotstar_split:
  "LF \<notin> set p \<Longrightarrow> k r = Some y \<Longrightarrow> (\<And>p' r'. r = p' @ r' \<Longrightarrow> p' \<noteq> [] \<Longrightarrow> k r' = None)
   \<Longrightarrow> dotstar k (p @ r) = Some (p, y)"
proof (induction p)
  case Nil
  show ?case
  proof (cases r)
    case Nil
    with Nil.prems show ?thesis by simp
  next
    case (Cons c cs)
    have "dotstar k cs = None"
    proof (rule dotstar_None)
      fix p' r' assume "cs = p' @ r'"
      then show "k r' = None" using Nil.prems(3) [of "c # p'" r'] Cons by simp
    qed
    with Cons Nil.prems(2) show ?thesis by (auto simp: dotstar_Cons simp del: dotstar.simps)
  qed
next
  case (Cons c p)
  from Cons.prems have "c \<noteq> LF" "LF \<notin> set p" by auto
  with Cons show ?case by (simp add: dotstar_Cons del: dotstar.simps)
qed

lemma match_designator_suffix:
  "LF \<notin> set b \<Longrightarrow> LF \<notin> set d \<Longrightarrow> match_designator d (b @ d) = Some (b, d)"
  unfolding match_designator_def
  by (rule dotstar_split) auto

lemma match_designator_None:
  "LF \<notin> set s \<Longrightarrow> (\<And>b. s \<noteq> b @ d) \<Longrightarrow> match_designator d s = None"
  unfolding match_designator_def
  by (rule dotstar_None) auto

lemma match_designator_SomeD:
  "match_designator d s = Some (b, r) \<Longrightarrow> r = d \<and> (s = b @ d \<or> s = b @ d @ [LF]) \<and> LF \<notin> set b"
  unfolding match_designator_def
  by (drule dotstar_SomeD) (auto split: if_splits)

lemma lit_dotstar_SomeD:
  "lit_dotstar lit k s = Some (g, y) \<Longrightarrow> \<exists>p r. g = lit @ p \<and> s = g @ r \<and> k r = Some y"
  unfolding lit_dotstar_def
  by (auto split: if_splits dest!: dotstar_SomeD) (metis append_take_drop_id)

lemma match_illumina_SomeD:
  "match_illumina s = Some (g1, g2, g3, g4, g5) \<Longrightarrow>
   \<exists>x2 x3 x4 x5 r. g2 = ''_S'' @ x2 \<and> g3 = ''_L'' @ x3 \<and> g4 = ''_R'' @ x4 \<and> g5 = ''_'' @ x5 \<and>
     s = g1 @ g2 @ g3 @ g4 @ g5 @ r"
  unfolding match_illumina_def
  apply (clarsimp)
  apply (drule dotstar_SomeD)
  apply clarsimp
  apply (drule lit_dotstar_SomeD)
  apply clarsimp
  apply (drule lit_dotstar_SomeD)
  apply clarsimp
  apply (drule lit_dotstar_SomeD)
  apply clarsimp
  apply (drule lit_dotstar_SomeD)
  apply clarsimp
  done

subsection \<open>Filename decomposition\<close>

text \<open>
  The stem and the extension reassemble to the filename when the pattern for the gzip
  suffix does not match it, and when it ends in \<open>.gz\<close> after a prefix without line
  feed.
\<close>

lemma os_path_splitext_roundtrip:
  "os_path_splitext p = (root, ext) \<Longrightarrow> root @ ext = p"
  by (auto simp: os_path_splitext_def Let_def split: if_splits)

lemma match_gz_suffix:
  "LF \<notin> set b \<Longrightarrow> match_gz (b @ ''.gz'') = Some b"
proof -
  assume b: "LF \<notin> set b"
  let ?k = "\<lambda>r. case r of
                   c # g # z # _ \<Rightarrow>
                     if c \<noteq> LF \<and> g = CHR ''g'' \<and> z = CHR ''z'' then Some () else None
                 | _ \<Rightarrow> None"
  have "dotstar ?k (b @ ''.gz'') = Some (b, ())"
    using b
  proof (rule dotstar_split)
    show "?k ''.gz'' = Some ()" by simp
    fix p' r' assume "''.gz'' = p' @ r'" "p' \<noteq> []"
    then have "length r' < 3" by (cases p') (auto simp: Cons_eq_append_conv)
    then show "?k r' = None" by (auto split: list.splits)
  qed
  then show ?thesis by (simp add: match_gz_def)
qed

lemma get_readFile_components_not_gz:
  assumes "match_gz (snd (os_path_split p)) = None"
    and "get_readFile_components p = (file_path, stem, full_ext)"
  shows "stem @ full_ext = snd (os_path_split p)"
  using assms
  by (auto simp: get_readFile_components_def Let_def split: prod.splits
      dest: os_path_splitext_roundtrip)

lemma get_readFile_components_gz:
  assumes "snd (os_path_split p) = b @ ''.gz''" and "LF \<notin> set b"
    and "get_readFile_components p = (file_path, stem, full_ext)"
  shows "stem @ full_ext = snd (os_path_split p)"
  using assms match_gz_suffix [OF assms(2)]
  by (auto simp: get_readFile_components_def Let_def split: prod.splits
      dest: os_path_splitext_roundtrip)

text \<open>
  C2. Reassembling \<open>stem + full_extension\<close> should give back the filename. The
  pattern \<open>(.*).gz\<close> also matches a name that merely contains \<open>gz\<close> after some
  character: of \<open>reads_gz.fastq\<close> the function keeps the stem \<open>reads\<close> and the extension
  \<open>.gz\<close>, which reassemble to \<open>reads.gz\<close>, although \<open>os.path.split\<close> gives the
  filename \<open>reads_gz.fastq\<close>.
\<close>

theorem get_readFile_components_reads_gz:
  "get_readFile_components ''/data/reads_gz.fastq'' = (''/data'', ''reads'', ''.gz'') \<and>
   snd (os_path_split ''/data/reads_gz.fastq'') = ''reads_gz.fastq'' \<and>
   ''reads'' @ ''.gz'' \<noteq> ''reads_gz.fastq''"
  by code_simp

text \<open>
  C3. The specification has the decomposition fail on the empty string. It does not: the empty
  string gives three empty strings.
\<close>

theorem get_readFile_components_empty_returns:
  "get_readFile_components_outcome '''' \<noteq> Inl InvalidPathError \<and>
   get_readFile_components_outcome '''' = Inr ('''', '''', '''')"
  by code_simp

text \<open>
  C3, as amended. Filename decomposition never fails: every input string, the empty
  one included, gives a triple, and the empty string gives three empty strings.
\<close>

theorem get_readFile_components_never_fails:
  "(\<exists>file_path stem full_ext.
      get_readFile_components_outcome p = Inr (file_path, stem, full_ext)) \<and>
   (\<forall>e. get_readFile_components_outcome p \<noteq> Inl e) \<and>
   get_readFile_components_outcome [] = Inr ([], [], [])"
proof -
  obtain a b c where "get_readFile_components p = (a, b, c)"
    by (cases "get_readFile_components p") auto
  moreover have "get_readFile_components [] = ([], [], [])"
    by code_simp
  ultimately show ?thesis
    by (simp add: get_readFile_components_outcome_def)
qed

subsection \<open>The MiSeq pair\<close>

text \<open>
  C4. With the default designators and the two files
  \<open>sample_S1_L001_R1_001.fastq.gz\<close> and \<open>sample_S1_L001_R2_001.fastq.gz\<close> as paired-end
  input, in either order, \<open>fileSets\<close> has the one key \<open>sample\<close>, its value is the list
  of the forward and the reverse file, the paired count is 1 and the single count 0.
\<close>

theorem read_file_sets_miseq_pair:
  "fileSets (read_file_sets
      \<lparr>input_se = None,
       input_pe = Some [''sample_S1_L001_R1_001.fastq.gz'', ''sample_S1_L001_R2_001.fastq.gz''],
       forward = ''_1'', reverse = ''_2''\<rparr>)
     = [(''sample'', Files [''sample_S1_L001_R1_001.fastq.gz'', ''sample_S1_L001_R2_001.fastq.gz''])] \<and>
   num_paired_readsets (read_file_sets
      \<lparr>input_se = None,
       input_pe = Some [''sample_S1_L001_R1_001.fastq.gz'', ''sample_S1_L001_R2_001.fastq.gz''],
       forward = ''_1'', reverse = ''_2''\<rparr>) = 1 \<and>
   num_single_readsets (read_file_sets
      \<lparr>input_se = None,
       input_pe = Some [''sample_S1_L001_R1_001.fastq.gz'', ''sample_S1_L001_R2_001.fastq.gz''],
       forward = ''_1'', reverse = ''_2''\<rparr>) = 0 \<and>
   fileSets (read_file_sets
      \<lparr>input_se = None,
       input_pe = Some [''sample_S1_L001_R2_001.fastq.gz'', ''sample_S1_L001_R1_001.fastq.gz''],
       forward = ''_1'', reverse = ''_2''\<rparr>)
     = [(''sample'', Files [''sample_S1_L001_R1_001.fastq.gz'', ''sample_S1_L001_R2_001.fastq.gz''])] \<and>
   num_paired_readsets (read_file_sets
      \<lparr>input_se = None,
       input_pe = Some [''sample_S1_L001_R2_001.fastq.gz'', ''sample_S1_L001_R1_001.fastq.gz''],
       forward = ''_1'', reverse = ''_2''\<rparr>) = 1 \<and>
   num_single_readsets (read_file_sets
      \<lparr>input_se = None,
       input_pe = Some [''sample_S1_L001_R2_001.fastq.gz'', ''sample_S1_L001_R1_001.fastq.gz''],
       forward = ''_1'', reverse = ''_2''\<rparr>) = 0"
  by code_simp



subsection \<open>Dictionaries\<close>

lemma set_update_subset: "set (AList.update k v al) \<subseteq> insert (k, v) (set al)"
  by (induction al) auto

lemma map_of_update_same: "map_of (AList.update k v al) k = Some v"
  by (simp add: update_conv')

lemma map_of_update_other: "k' \<noteq> k \<Longrightarrow> map_of (AList.update k v al) k' = map_of al k'"
  by (simp add: update_conv')

lemma length_filter_keys:
  "distinct (map fst al) \<Longrightarrow> length (filter (\<lambda>item. P (fst item)) al) = card {k \<in> fst ` set al. P k}"
proof -
  assume d: "distinct (map fst al)"
  have "filter P (map fst al) = map fst (filter (\<lambda>item. P (fst item)) al)"
    by (simp add: filter_map comp_def)
  then have "length (filter (\<lambda>item. P (fst item)) al) = length (filter P (map fst al))"
    by simp
  also have "\<dots> = card (set (filter P (map fst al)))"
    using d by (metis distinct_card distinct_filter)
  also have "set (filter P (map fst al)) = {k \<in> fst ` set al. P k}"
    by auto
  finally show ?thesis .
qed

subsection \<open>The single-end loop\<close>

lemma single_end_body_eq:
  "single_end_body fastq st =
     st\<lparr>fileSets := AList.update (single_end_key fastq) (Files [fastq]) (fileSets st),
        num_single_readsets := num_single_readsets st + 1\<rparr>"
  by (auto simp: single_end_body_def single_end_key_def split: prod.splits option.splits)

lemma fold_single_end_counts:
  "num_single_readsets (fold single_end_body fs st) = num_single_readsets st + length fs \<and>
   num_paired_readsets (fold single_end_body fs st) = num_paired_readsets st \<and>
   stdout (fold single_end_body fs st) = stdout st"
  by (induction fs arbitrary: st) (simp_all add: single_end_body_eq)

lemma fold_single_end_keys:
  "fst ` set (fileSets (fold single_end_body fs st)) =
     fst ` set (fileSets st) \<union> single_end_key ` set fs"
  by (induction fs arbitrary: st) (auto simp: single_end_body_eq dom_update)

lemma fold_single_end_distinct:
  "distinct (map fst (fileSets st)) \<Longrightarrow> distinct (map fst (fileSets (fold single_end_body fs st)))"
  by (induction fs arbitrary: st) (simp_all add: single_end_body_eq distinct_update)

lemma fold_single_end_other:
  "k \<notin> single_end_key ` set fs \<Longrightarrow>
   map_of (fileSets (fold single_end_body fs st)) k = map_of (fileSets st) k"
  by (induction fs arbitrary: st) (auto simp: single_end_body_eq update_conv')

lemma fold_single_end_last:
  "single_end_key f \<notin> single_end_key ` set ys \<Longrightarrow>
   map_of (fileSets (fold single_end_body (xs @ f # ys) st)) (single_end_key f) = Some (Files [f])"
  by (simp add: fold_single_end_other single_end_body_eq update_conv')

lemma fold_single_end_entries:
  "map_of (fileSets (fold single_end_body fs st)) k = Some e \<Longrightarrow>
   map_of (fileSets st) k = Some e \<or> (\<exists>f \<in> set fs. e = Files [f] \<and> k = single_end_key f)"
proof (induction fs arbitrary: st)
  case Nil
  then show ?case by simp
next
  case (Cons f fs)
  from Cons.IH [of "single_end_body f st"] Cons.prems
  show ?case
    by (auto simp: single_end_body_eq update_conv' split: if_splits)
qed

subsection \<open>The loop over the paired-end files\<close>

lemma paired_end_body_classify:
  "paired_end_body args fastq st =
     (case classify args fastq of
        Forward k \<Rightarrow> st\<lparr>forward_reads := AList.update k fastq (forward_reads st)\<rparr>
      | Reverse k \<Rightarrow> st\<lparr>reverse_reads := AList.update k fastq (reverse_reads st)\<rparr>
      | Ambiguous k \<Rightarrow>
          st\<lparr>stdout := stdout st @ [undetermined fastq, miseq_hint],
             fileSets := AList.update k (Bare fastq) (fileSets st),
             num_single_readsets := num_single_readsets st + 1\<rparr>
      | Undetermined \<Rightarrow> st\<lparr>stdout := stdout st @ [undetermined fastq]\<rparr>)"
  by (auto simp: paired_end_body_def classify_def py_print_def split: prod.splits option.splits)


lemma fold_classify_counts:
  "num_paired_readsets (fold (paired_end_body args) fs st) = num_paired_readsets st \<and>
   num_single_readsets (fold (paired_end_body args) fs st) =
     num_single_readsets st + length (ambiguous_stems args fs)"
  by (induction fs arbitrary: st)
     (simp_all add: paired_end_body_classify split: read_class.splits)

lemma fold_classify_distinct:
  "distinct (map fst (forward_reads st)) \<Longrightarrow> distinct (map fst (reverse_reads st)) \<Longrightarrow>
   distinct (map fst (fileSets st)) \<Longrightarrow>
   distinct (map fst (forward_reads (fold (paired_end_body args) fs st))) \<and>
   distinct (map fst (reverse_reads (fold (paired_end_body args) fs st))) \<and>
   distinct (map fst (fileSets (fold (paired_end_body args) fs st)))"
  by (induction fs arbitrary: st)
     (simp_all add: paired_end_body_classify distinct_update split: read_class.splits)

lemma fold_classify_forward:
  "map_of (forward_reads (fold (paired_end_body args) fs st)) k = Some p \<Longrightarrow>
   map_of (forward_reads st) k = Some p \<or> (p \<in> set fs \<and> classify args p = Forward k)"
proof (induction fs arbitrary: st)
  case Nil
  then show ?case by simp
next
  case (Cons f fs)
  from Cons.IH [of "paired_end_body args f st"] Cons.prems
  show ?case
    by (auto simp: paired_end_body_classify update_conv' split: read_class.splits if_splits)
qed

lemma fold_classify_reverse:
  "map_of (reverse_reads (fold (paired_end_body args) fs st)) k = Some p \<Longrightarrow>
   map_of (reverse_reads st) k = Some p \<or> (p \<in> set fs \<and> classify args p = Reverse k)"
proof (induction fs arbitrary: st)
  case Nil
  then show ?case by simp
next
  case (Cons f fs)
  from Cons.IH [of "paired_end_body args f st"] Cons.prems
  show ?case
    by (auto simp: paired_end_body_classify update_conv' split: read_class.splits if_splits)
qed

lemma fold_classify_fileSets:
  "map_of (fileSets (fold (paired_end_body args) fs st)) k = Some e \<Longrightarrow>
   map_of (fileSets st) k = Some e \<or>
   (\<exists>p \<in> set fs. e = Bare p \<and> classify args p = Ambiguous k)"
proof (induction fs arbitrary: st)
  case Nil
  then show ?case by simp
next
  case (Cons f fs)
  from Cons.IH [of "paired_end_body args f st"] Cons.prems
  show ?case
    by (auto simp: paired_end_body_classify update_conv' split: read_class.splits if_splits)
qed

lemma fold_classify_keys:
  "fst ` set (fileSets (fold (paired_end_body args) fs st)) =
     fst ` set (fileSets st) \<union> set (ambiguous_stems args fs)"
  by (induction fs arbitrary: st)
     (auto simp: paired_end_body_classify dom_update split: read_class.splits)

lemma set_ambiguous_stems:
  "set (ambiguous_stems args fs) = {k. \<exists>p \<in> set fs. classify args p = Ambiguous k}"
  by (induction fs) (auto split: read_class.splits)

lemma fold_classify_stdout_mono:
  "set (stdout st) \<subseteq> set (stdout (fold (paired_end_body args) fs st))"
proof (induction fs arbitrary: st)
  case Nil
  show ?case by simp
next
  case (Cons f fs)
  have "set (stdout st) \<subseteq> set (stdout (paired_end_body args f st))"
    by (auto simp: paired_end_body_classify split: read_class.splits)
  with Cons.IH [of "paired_end_body args f st"] show ?case by auto
qed

lemma fold_classify_warned:
  "p \<in> set fs \<Longrightarrow> classify args p = Ambiguous k \<Longrightarrow>
   undetermined p \<in> set (stdout (fold (paired_end_body args) fs st)) \<and>
   miseq_hint \<in> set (stdout (fold (paired_end_body args) fs st))"
proof (induction fs arbitrary: st)
  case Nil
  then show ?case by simp
next
  case (Cons f fs)
  show ?case
  proof (cases "p = f")
    case True
    with Cons.prems have "undetermined p \<in> set (stdout (paired_end_body args f st))"
      "miseq_hint \<in> set (stdout (paired_end_body args f st))"
      by (auto simp: paired_end_body_classify)
    with fold_classify_stdout_mono [of "paired_end_body args f st" args fs]
    show ?thesis by auto
  next
    case False
    with Cons show ?thesis by simp
  qed
qed


subsection \<open>The loop over the forward reads\<close>

lemma store_pair_body_eq:
  "store_pair_body (sample, fwd) st =
     (case map_of (reverse_reads st) sample of
        Some rv \<Rightarrow>
          st\<lparr>fileSets := AList.update sample (Files [fwd, rv]) (fileSets st),
             num_paired_readsets := num_paired_readsets st + 1\<rparr>
      | None \<Rightarrow>
          st\<lparr>stdout := stdout st @ [no_pair fwd],
             fileSets := AList.update sample (Files [fwd]) (fileSets st),
             num_single_readsets := num_single_readsets st + 1\<rparr>)"
  by (simp add: store_pair_body_def py_print_def split: option.splits)

lemma fold_store_pair_reads:
  "forward_reads (fold store_pair_body fl st) = forward_reads st \<and>
   reverse_reads (fold store_pair_body fl st) = reverse_reads st"
  by (induction fl arbitrary: st) (auto simp: store_pair_body_eq split: option.splits)

lemma fold_store_pair_counts:
  "num_paired_readsets (fold store_pair_body fl st) =
     num_paired_readsets st +
     length (filter (\<lambda>item. map_of (reverse_reads st) (fst item) \<noteq> None) fl) \<and>
   num_single_readsets (fold store_pair_body fl st) =
     num_single_readsets st +
     length (filter (\<lambda>item. map_of (reverse_reads st) (fst item) = None) fl)"
proof (induction fl arbitrary: st)
  case Nil
  show ?case by simp
next
  case (Cons item fl)
  obtain sample fwd where item: "item = (sample, fwd)" by (cases item)
  have r: "reverse_reads (store_pair_body item st) = reverse_reads st"
    by (simp add: item store_pair_body_eq split: option.splits)
  show ?case
    using Cons.IH [of "store_pair_body item st"]
    by (simp add: r) (simp add: item store_pair_body_eq split: option.splits)
qed

lemma fold_store_pair_distinct:
  "distinct (map fst (fileSets st)) \<Longrightarrow>
   distinct (map fst (fileSets (fold store_pair_body fl st)))"
proof (induction fl arbitrary: st)
  case Nil
  then show ?case by simp
next
  case (Cons item fl)
  obtain sample fwd where item: "item = (sample, fwd)" by (cases item)
  have "distinct (map fst (fileSets (store_pair_body item st)))"
    using Cons.prems by (simp add: item store_pair_body_eq distinct_update split: option.splits)
  then show ?case using Cons.IH by simp
qed

lemma fold_store_pair_keys:
  "fst ` set (fileSets (fold store_pair_body fl st)) = fst ` set (fileSets st) \<union> fst ` set fl"
proof (induction fl arbitrary: st)
  case Nil
  show ?case by simp
next
  case (Cons item fl)
  obtain sample fwd where item: "item = (sample, fwd)" by (cases item)
  have "fst ` set (fileSets (store_pair_body item st)) = insert sample (fst ` set (fileSets st))"
    by (simp add: item store_pair_body_eq dom_update split: option.splits)
  then show ?case using Cons.IH [of "store_pair_body item st"] by (auto simp: item)
qed

lemma fold_store_pair_lookup:
  "distinct (map fst fl) \<Longrightarrow>
   map_of (fileSets (fold store_pair_body fl st)) k =
     (case map_of fl k of
        Some fwd \<Rightarrow>
          Some (case map_of (reverse_reads st) k of
                  Some rv \<Rightarrow> Files [fwd, rv]
                | None \<Rightarrow> Files [fwd])
      | None \<Rightarrow> map_of (fileSets st) k)"
proof (induction fl arbitrary: st)
  case Nil
  show ?case by simp
next
  case (Cons item fl)
  obtain sample fwd where item: "item = (sample, fwd)" by (cases item)
  have r: "reverse_reads (store_pair_body item st) = reverse_reads st"
    by (simp add: item store_pair_body_eq split: option.splits)
  from Cons.prems have d: "distinct (map fst fl)" and n: "map_of fl sample = None"
    by (auto simp: item map_of_eq_None_iff)
  have l: "map_of (fileSets (store_pair_body item st)) =
        (map_of (fileSets st))(sample \<mapsto>
          (case map_of (reverse_reads st) sample of
             Some rv \<Rightarrow> Files [fwd, rv] | None \<Rightarrow> Files [fwd]))"
    by (simp add: item store_pair_body_eq update_conv' split: option.splits)
  have "map_of (fileSets (fold store_pair_body (item # fl) st)) k =
      (case map_of fl k of
         Some fwd \<Rightarrow>
           Some (case map_of (reverse_reads st) k of
                   Some rv \<Rightarrow> Files [fwd, rv]
                 | None \<Rightarrow> Files [fwd])
       | None \<Rightarrow> map_of (fileSets (store_pair_body item st)) k)"
    using Cons.IH [OF d, of "store_pair_body item st"] unfolding r by simp
  also have "\<dots> =
      (case map_of (item # fl) k of
         Some fwd \<Rightarrow>
           Some (case map_of (reverse_reads st) k of
                   Some rv \<Rightarrow> Files [fwd, rv]
                 | None \<Rightarrow> Files [fwd])
       | None \<Rightarrow> map_of (fileSets st) k)"
    using n unfolding l by (cases "k = sample") (simp_all add: item split: option.splits)
  finally show ?case .
qed

lemma fold_store_pair_stdout:
  "x \<in> set (stdout (fold store_pair_body fl st)) \<longleftrightarrow>
     x \<in> set (stdout st) \<or>
     (\<exists>item \<in> set fl. map_of (reverse_reads st) (fst item) = None \<and> x = no_pair (snd item))"
proof (induction fl arbitrary: st)
  case Nil
  show ?case by simp
next
  case (Cons item fl)
  obtain sample fwd where item: "item = (sample, fwd)" by (cases item)
  have r: "reverse_reads (store_pair_body item st) = reverse_reads st"
    by (simp add: item store_pair_body_eq split: option.splits)
  have s: "x \<in> set (stdout (store_pair_body item st)) \<longleftrightarrow>
      x \<in> set (stdout st) \<or> (map_of (reverse_reads st) sample = None \<and> x = no_pair fwd)"
    by (auto simp: item store_pair_body_eq split: option.splits)
  show ?case
    unfolding fold_simps comp_def Cons.IH [of "store_pair_body item st"] r s
    by (auto simp: item)
qed

subsection \<open>The loop over the reverse reads\<close>

lemma store_reverse_body_eq:
  "store_reverse_body (sample, rv) st =
     (if map_of (fileSets st) sample = None
      then st\<lparr>stdout := stdout st @ [no_pair rv],
              fileSets := AList.update sample (Bare rv) (fileSets st),
              num_single_readsets := num_single_readsets st + 1\<rparr>
      else st)"
  by (simp add: store_reverse_body_def py_print_def)

lemma fold_store_reverse_fields:
  "forward_reads (fold store_reverse_body rl st) = forward_reads st \<and>
   reverse_reads (fold store_reverse_body rl st) = reverse_reads st \<and>
   num_paired_readsets (fold store_reverse_body rl st) = num_paired_readsets st"
  by (induction rl arbitrary: st) (auto simp: store_reverse_body_eq)

lemma fold_store_reverse_distinct:
  "distinct (map fst (fileSets st)) \<Longrightarrow>
   distinct (map fst (fileSets (fold store_reverse_body rl st)))"
proof (induction rl arbitrary: st)
  case Nil
  then show ?case by simp
next
  case (Cons item rl)
  obtain sample rv where item: "item = (sample, rv)" by (cases item)
  have "distinct (map fst (fileSets (store_reverse_body item st)))"
    using Cons.prems by (simp add: item store_reverse_body_eq distinct_update)
  then show ?case using Cons.IH by simp
qed

lemma fold_store_reverse_lookup:
  "map_of (fileSets (fold store_reverse_body rl st)) k =
     (case map_of (fileSets st) k of
        Some e \<Rightarrow> Some e
      | None \<Rightarrow> map_option Bare (map_of rl k))"
proof (induction rl arbitrary: st)
  case Nil
  show ?case by (simp split: option.splits)
next
  case (Cons item rl)
  obtain sample rv where item: "item = (sample, rv)" by (cases item)
  show ?case
    unfolding fold_simps comp_def Cons.IH [of "store_reverse_body item st"]
    by (auto simp: item store_reverse_body_eq update_conv' split: option.splits)
qed

lemma fold_store_reverse_count:
  "distinct (map fst rl) \<Longrightarrow>
   num_single_readsets (fold store_reverse_body rl st) =
     num_single_readsets st +
     length (filter (\<lambda>item. map_of (fileSets st) (fst item) = None) rl)"
proof (induction rl arbitrary: st)
  case Nil
  show ?case by simp
next
  case (Cons item rl)
  obtain sample rv where item: "item = (sample, rv)" by (cases item)
  from Cons.prems have d: "distinct (map fst rl)" and n: "sample \<notin> fst ` set rl"
    by (auto simp: item)
  have "filter (\<lambda>i. map_of (fileSets (store_reverse_body item st)) (fst i) = None) rl =
        filter (\<lambda>i. map_of (fileSets st) (fst i) = None) rl"
  proof (rule filter_cong [OF refl])
    fix i assume "i \<in> set rl"
    with n have "fst i \<noteq> sample" by auto
    then show "(map_of (fileSets (store_reverse_body item st)) (fst i) = None) =
       (map_of (fileSets st) (fst i) = None)"
      by (simp add: item store_reverse_body_eq update_conv')
  qed
  then show ?case
    using Cons.IH [OF d, of "store_reverse_body item st"]
    by (simp add: item store_reverse_body_eq)
qed

lemma fold_store_reverse_stdout:
  "set (stdout st) \<subseteq> set (stdout (fold store_reverse_body rl st))"
proof (induction rl arbitrary: st)
  case Nil
  show ?case by simp
next
  case (Cons item rl)
  obtain sample rv where item: "item = (sample, rv)" by (cases item)
  have "set (stdout st) \<subseteq> set (stdout (store_reverse_body item st))"
    by (auto simp: item store_reverse_body_eq)
  with Cons.IH [of "store_reverse_body item st"] show ?case by auto
qed

subsection \<open>The paired-end branch as a whole\<close>

lemma paired_end_classified:
  "paired_end args initial =
     fold store_reverse_body (reverse_reads (classified args))
       (fold store_pair_body (forward_reads (classified args)) (classified args))"
  by (simp add: paired_end_def classified_def Let_def fold_store_pair_reads)

lemma classified_distinct:
  "distinct (map fst (forward_reads (classified args))) \<and>
   distinct (map fst (reverse_reads (classified args))) \<and>
   distinct (map fst (fileSets (classified args)))"
  unfolding classified_def
  by (rule fold_classify_distinct) (simp_all add: initial_def)

lemma classified_forward:
  "map_of (forward_reads (classified args)) k = Some p \<Longrightarrow>
   p \<in> set (items (input_pe args)) \<and> classify args p = Forward k"
  unfolding classified_def
  by (drule fold_classify_forward) (simp add: initial_def)

lemma classified_reverse:
  "map_of (reverse_reads (classified args)) k = Some p \<Longrightarrow>
   p \<in> set (items (input_pe args)) \<and> classify args p = Reverse k"
  unfolding classified_def
  by (drule fold_classify_reverse) (simp add: initial_def)

lemma classified_fileSets:
  "map_of (fileSets (classified args)) k = Some e \<Longrightarrow>
   \<exists>p \<in> set (items (input_pe args)). e = Bare p \<and> classify args p = Ambiguous k"
  unfolding classified_def
  by (drule fold_classify_fileSets) (simp add: initial_def)

lemma classified_keys:
  "fst ` set (fileSets (classified args)) = set (ambiguous_stems args (items (input_pe args)))"
  unfolding classified_def
  by (simp add: fold_classify_keys initial_def)

lemma classified_None:
  "map_of (fileSets (classified args)) k = None \<longleftrightarrow>
   k \<notin> set (ambiguous_stems args (items (input_pe args)))"
  by (simp add: map_of_eq_None_iff classified_keys)

lemma classified_counts:
  "num_paired_readsets (classified args) = 0 \<and>
   num_single_readsets (classified args) = length (ambiguous_stems args (items (input_pe args)))"
  unfolding classified_def
  by (simp add: fold_classify_counts initial_def)

lemma paired_end_reads:
  "forward_reads (paired_end args initial) = forward_reads (classified args) \<and>
   reverse_reads (paired_end args initial) = reverse_reads (classified args)"
  by (simp add: paired_end_classified fold_store_reverse_fields fold_store_pair_reads)

lemma paired_end_distinct:
  "distinct (map fst (fileSets (paired_end args initial)))"
  by (simp add: paired_end_classified fold_store_reverse_distinct fold_store_pair_distinct
      classified_distinct)

lemma paired_end_lookup:
  "map_of (fileSets (paired_end args initial)) k =
     (case map_of (forward_reads (classified args)) k of
        Some fwd \<Rightarrow>
          Some (case map_of (reverse_reads (classified args)) k of
                  Some rv \<Rightarrow> Files [fwd, rv]
                | None \<Rightarrow> Files [fwd])
      | None \<Rightarrow>
          (case map_of (fileSets (classified args)) k of
             Some e \<Rightarrow> Some e
           | None \<Rightarrow> map_option Bare (map_of (reverse_reads (classified args)) k)))"
  unfolding paired_end_classified fold_store_reverse_lookup
  by (simp add: fold_store_pair_lookup classified_distinct fold_store_pair_reads
      split: option.splits)

lemma paired_end_counts:
  "num_paired_readsets (paired_end args initial) =
     length (filter (\<lambda>item. map_of (reverse_reads (classified args)) (fst item) \<noteq> None)
       (forward_reads (classified args))) \<and>
   num_single_readsets (paired_end args initial) =
     length (ambiguous_stems args (items (input_pe args))) +
     length (filter (\<lambda>item. map_of (reverse_reads (classified args)) (fst item) = None)
       (forward_reads (classified args))) +
     length (filter (\<lambda>item. map_of (forward_reads (classified args)) (fst item) = None \<and>
                 fst item \<notin> set (ambiguous_stems args (items (input_pe args))))
       (reverse_reads (classified args)))"
proof -
  let ?c = "classified args"
  let ?p = "fold store_pair_body (forward_reads ?c) ?c"
  have "\<And>k. (map_of (fileSets ?p) k = None) =
      (map_of (forward_reads ?c) k = None \<and>
       k \<notin> set (ambiguous_stems args (items (input_pe args))))"
    by (simp add: fold_store_pair_lookup classified_distinct classified_None [symmetric]
        split: option.splits)
  then have "filter (\<lambda>item. map_of (fileSets ?p) (fst item) = None) (reverse_reads ?c) =
      filter (\<lambda>item. map_of (forward_reads ?c) (fst item) = None \<and>
                 fst item \<notin> set (ambiguous_stems args (items (input_pe args))))
       (reverse_reads ?c)"
    by simp
  then show ?thesis
    by (simp add: paired_end_classified fold_store_reverse_fields fold_store_reverse_count
        fold_store_pair_reads fold_store_pair_counts classified_distinct classified_counts)
qed

lemma paired_end_stdout:
  "set (stdout (classified args)) \<subseteq> set (stdout (paired_end args initial)) \<and>
   (\<forall>k fwd. map_of (forward_reads (classified args)) k = Some fwd \<longrightarrow>
      map_of (reverse_reads (classified args)) k = None \<longrightarrow>
      no_pair fwd \<in> set (stdout (paired_end args initial)))"
proof -
  let ?c = "classified args"
  let ?p = "fold store_pair_body (forward_reads ?c) ?c"
  have a: "set (stdout ?p) \<subseteq> set (stdout (paired_end args initial))"
    by (simp add: paired_end_classified fold_store_reverse_stdout)
  have "set (stdout ?c) \<subseteq> set (stdout ?p)"
    by (auto simp: fold_store_pair_stdout)
  moreover have "no_pair fwd \<in> set (stdout ?p)"
    if "map_of (forward_reads ?c) k = Some fwd" "map_of (reverse_reads ?c) k = None" for k fwd
  proof -
    from that(1) have "(k, fwd) \<in> set (forward_reads ?c)" by (rule map_of_SomeD)
    with that(2) show ?thesis
      unfolding fold_store_pair_stdout by force
  qed
  ultimately show ?thesis using a by blast
qed

subsection \<open>The order in which a dictionary is visited\<close>

text \<open>
  The mapping, the two counters and the set of printed lines do not depend on the order
  in which the two loops visit the dictionaries.
\<close>

lemma length_filter_distinct:
  assumes "distinct xs" "distinct ys" "set xs = set ys"
  shows "length (filter P xs) = length (filter P ys)"
proof -
  have "length (filter P xs) = card (set (filter P xs))"
    using assms(1) by (metis distinct_card distinct_filter)
  also have "set (filter P xs) = set (filter P ys)"
    using assms(3) by simp
  also have "card \<dots> = length (filter P ys)"
    using assms(2) by (metis distinct_card distinct_filter)
  finally show ?thesis .
qed

lemma fold_store_reverse_stdout_iff:
  "distinct (map fst rl) \<Longrightarrow>
   x \<in> set (stdout (fold store_reverse_body rl st)) \<longleftrightarrow>
     x \<in> set (stdout st) \<or>
     (\<exists>item \<in> set rl. map_of (fileSets st) (fst item) = None \<and> x = no_pair (snd item))"
proof (induction rl arbitrary: st)
  case Nil
  show ?case by simp
next
  case (Cons item rl)
  obtain sample rv where item: "item = (sample, rv)" by (cases item)
  from Cons.prems have d: "distinct (map fst rl)" and n: "sample \<notin> fst ` set rl"
    by (auto simp: item)
  have s: "x \<in> set (stdout (store_reverse_body item st)) \<longleftrightarrow>
      x \<in> set (stdout st) \<or> (map_of (fileSets st) sample = None \<and> x = no_pair rv)"
    by (auto simp: item store_reverse_body_eq)
  have l: "map_of (fileSets (store_reverse_body item st)) (fst i) = map_of (fileSets st) (fst i)"
    if "i \<in> set rl" for i
  proof -
    from that n have "fst i \<noteq> sample" by auto
    then show ?thesis by (simp add: item store_reverse_body_eq update_conv')
  qed
  have "x \<in> set (stdout (fold store_reverse_body (item # rl) st)) \<longleftrightarrow>
      x \<in> set (stdout (store_reverse_body item st)) \<or>
      (\<exists>i \<in> set rl. map_of (fileSets (store_reverse_body item st)) (fst i) = None \<and>
         x = no_pair (snd i))"
    using Cons.IH [OF d, of "store_reverse_body item st"] by simp
  also have "\<dots> \<longleftrightarrow> x \<in> set (stdout st) \<or>
      (map_of (fileSets st) sample = None \<and> x = no_pair rv) \<or>
      (\<exists>i \<in> set rl. map_of (fileSets st) (fst i) = None \<and> x = no_pair (snd i))"
    unfolding s using l by auto
  also have "\<dots> \<longleftrightarrow> x \<in> set (stdout st) \<or>
      (\<exists>i \<in> set (item # rl). map_of (fileSets st) (fst i) = None \<and> x = no_pair (snd i))"
    by (auto simp: item)
  finally show ?case .
qed

lemma paired_end_in_order_eq:
  "paired_end args initial =
     paired_end_in_order args (forward_reads (classified args)) (reverse_reads (classified args))"
  by (simp add: paired_end_classified paired_end_in_order_def)

lemma paired_end_order_independent:
  assumes fl: "distinct (map fst fl)" "set fl = set (forward_reads (classified args))"
    and rl: "distinct (map fst rl)" "set rl = set (reverse_reads (classified args))"
  shows "map_of (fileSets (paired_end_in_order args fl rl)) =
       map_of (fileSets (paired_end args initial)) \<and>
     num_paired_readsets (paired_end_in_order args fl rl) =
       num_paired_readsets (paired_end args initial) \<and>
     num_single_readsets (paired_end_in_order args fl rl) =
       num_single_readsets (paired_end args initial) \<and>
     set (stdout (paired_end_in_order args fl rl)) = set (stdout (paired_end args initial))"
proof -
  let ?c = "classified args"
  let ?F = "forward_reads ?c" and ?R = "reverse_reads ?c"
  let ?p = "fold store_pair_body fl ?c" and ?q = "fold store_pair_body ?F ?c"
  have dF: "distinct (map fst ?F)" and dR: "distinct (map fst ?R)"
    using classified_distinct [of args] by simp_all
  have mF: "map_of fl = map_of ?F"
    using fl dF by (simp add: map_of_inject_set)
  have mR: "map_of rl = map_of ?R"
    using rl dR by (simp add: map_of_inject_set)
  have d: "distinct fl" "distinct ?F" "distinct rl" "distinct ?R"
    using fl(1) rl(1) dF dR by (auto dest: distinct_map [THEN iffD1])
  have lp: "map_of (fileSets ?p) = map_of (fileSets ?q)"
    by (rule ext) (simp add: fold_store_pair_lookup fl(1) dF mF)
  have 1: "map_of (fileSets (paired_end_in_order args fl rl)) =
       map_of (fileSets (paired_end args initial))"
    by (rule ext)
      (simp add: paired_end_in_order_eq paired_end_in_order_def fold_store_reverse_lookup lp mR
        split: option.splits)
  have 2: "num_paired_readsets (paired_end_in_order args fl rl) =
       num_paired_readsets (paired_end args initial)"
    by (simp add: paired_end_in_order_eq paired_end_in_order_def fold_store_reverse_fields
        fold_store_pair_counts length_filter_distinct [OF d(1,2) fl(2)])
  have 3: "num_single_readsets (paired_end_in_order args fl rl) =
       num_single_readsets (paired_end args initial)"
    by (simp add: paired_end_in_order_eq paired_end_in_order_def
        fold_store_reverse_count rl(1) dR fold_store_pair_counts lp
        length_filter_distinct [OF d(1,2) fl(2)] length_filter_distinct [OF d(3,4) rl(2)])
  have sp: "set (stdout ?p) = set (stdout ?q)"
    by (auto simp: fold_store_pair_stdout fl(2))
  have 4: "set (stdout (paired_end_in_order args fl rl)) = set (stdout (paired_end args initial))"
    by (auto simp: paired_end_in_order_eq paired_end_in_order_def
        fold_store_reverse_stdout_iff rl dR lp sp)
  from 1 2 3 4 show ?thesis by blast
qed

subsection \<open>The function as a whole\<close>

lemma print_totals_fields:
  "fileSets (print_totals st) = fileSets st \<and>
   num_single_readsets (print_totals st) = num_single_readsets st \<and>
   num_paired_readsets (print_totals st) = num_paired_readsets st \<and>
   forward_reads (print_totals st) = forward_reads st \<and>
   reverse_reads (print_totals st) = reverse_reads st \<and>
   set (stdout st) \<subseteq> set (stdout (print_totals st))"
  by (auto simp: print_totals_def py_print_def Let_def)

lemma read_file_sets_single:
  "truthy (input_se args) \<Longrightarrow>
   read_file_sets args = print_totals (fold single_end_body (items (input_se args)) initial)"
  by (simp add: read_file_sets_def)

lemma paired_end_no_files: "items (input_pe args) = [] \<Longrightarrow> paired_end args initial = initial"
  by (simp add: paired_end_def initial_def)

lemma read_file_sets_paired:
  "\<not> truthy (input_se args) \<Longrightarrow> read_file_sets args = print_totals (paired_end args initial)"
  by (auto simp: read_file_sets_def paired_end_no_files truthy_def items_def split: option.splits)

subsection \<open>Single-end mode\<close>

lemma single_end_all_files:
  "(k, e) \<in> set (fileSets (fold single_end_body fs initial)) \<Longrightarrow>
   \<exists>f \<in> set fs. e = Files [f] \<and> k = single_end_key f"
proof -
  assume "(k, e) \<in> set (fileSets (fold single_end_body fs initial))"
  moreover have "distinct (map fst (fileSets (fold single_end_body fs initial)))"
    by (rule fold_single_end_distinct) (simp add: initial_def)
  ultimately have "map_of (fileSets (fold single_end_body fs initial)) k = Some e"
    by simp
  from fold_single_end_entries [OF this] show ?thesis
    by (simp add: initial_def)
qed

lemma single_end_length:
  "length (fileSets (fold single_end_body fs initial)) = card (single_end_key ` set fs)"
proof -
  have d: "distinct (map fst (fileSets (fold single_end_body fs initial)))"
    by (rule fold_single_end_distinct) (simp add: initial_def)
  have "length (fileSets (fold single_end_body fs initial)) =
        length (map fst (fileSets (fold single_end_body fs initial)))"
    by simp
  also have "\<dots> = card (set (map fst (fileSets (fold single_end_body fs initial))))"
    using d by (simp only: distinct_card)
  also have "\<dots> = card (single_end_key ` set fs)"
    by (simp add: fold_single_end_keys initial_def)
  finally show ?thesis .
qed

lemma print_totals_single_stdout:
  "num_paired_readsets st = 0 \<Longrightarrow> 0 < num_single_readsets st \<Longrightarrow>
   stdout (print_totals st) =
     stdout st @ [''Total single reads found:'' @ str (num_single_readsets st)]"
  by (simp add: print_totals_def py_print_def)

text \<open>
  C10. In single-end mode the single count is the number of input files, one for each;
  of the files that derive one key the last is the one the key holds, whatever came
  before it, and nothing is printed but the total; so the dictionary has as many
  entries as the files have keys, which can be fewer than the count: the two files
  \<open>a/x.fastq\<close> and \<open>b/x.fastq\<close> give the count 2 and the one entry of \<open>b/x.fastq\<close>.
\<close>

theorem single_end_counts_every_file:
  assumes "truthy (input_se args)"
  shows "num_single_readsets (read_file_sets args) = length (items (input_se args)) \<and>
     (\<forall>xs f ys. items (input_se args) = xs @ f # ys \<and>
        single_end_key f \<notin> single_end_key ` set ys \<longrightarrow>
        map_of (fileSets (read_file_sets args)) (single_end_key f) = Some (Files [f])) \<and>
     stdout (read_file_sets args) =
       [''Total single reads found:'' @ str (length (items (input_se args)))] \<and>
     length (fileSets (read_file_sets args)) = card (single_end_key ` set (items (input_se args))) \<and>
     length (fileSets (read_file_sets args)) \<le> num_single_readsets (read_file_sets args) \<and>
     fileSets (read_file_sets
        \<lparr>input_se = Some [''a/x.fastq'', ''b/x.fastq''], input_pe = None,
         forward = ''_1'', reverse = ''_2''\<rparr>) = [(''x'', Files [''b/x.fastq''])] \<and>
     num_single_readsets (read_file_sets
        \<lparr>input_se = Some [''a/x.fastq'', ''b/x.fastq''], input_pe = None,
         forward = ''_1'', reverse = ''_2''\<rparr>) = 2"
proof -
  let ?fs = "items (input_se args)"
  let ?st = "fold single_end_body ?fs initial"
  have r: "read_file_sets args = print_totals ?st"
    using assms by (rule read_file_sets_single)
  have ne: "?fs \<noteq> []"
    using assms by (auto simp: truthy_def items_def split: option.splits)
  have n: "num_single_readsets ?st = length ?fs" "num_paired_readsets ?st = 0" "stdout ?st = []"
    by (simp_all add: fold_single_end_counts initial_def)
  have 1: "num_single_readsets (read_file_sets args) = length ?fs"
    by (simp add: r print_totals_fields n)
  have 2: "map_of (fileSets (read_file_sets args)) (single_end_key f) = Some (Files [f])"
    if "?fs = xs @ f # ys" "single_end_key f \<notin> single_end_key ` set ys" for xs f ys
    unfolding r that(1) by (simp only: print_totals_fields fold_single_end_last [OF that(2)])
  have 3: "stdout (read_file_sets args) = [''Total single reads found:'' @ str (length ?fs)]"
    using ne by (simp add: r print_totals_single_stdout n)
  have 4: "length (fileSets (read_file_sets args)) = card (single_end_key ` set ?fs)"
    by (simp add: r print_totals_fields single_end_length)
  have "card (single_end_key ` set ?fs) \<le> length ?fs"
    by (metis card_image_le card_length le_trans List.finite_set)
  with 1 4 have 5: "length (fileSets (read_file_sets args)) \<le> num_single_readsets (read_file_sets args)"
    by simp
  have 6: "fileSets (read_file_sets
        \<lparr>input_se = Some [''a/x.fastq'', ''b/x.fastq''], input_pe = None,
         forward = ''_1'', reverse = ''_2''\<rparr>) = [(''x'', Files [''b/x.fastq''])]"
    by code_simp
  have 7: "num_single_readsets (read_file_sets
        \<lparr>input_se = Some [''a/x.fastq'', ''b/x.fastq''], input_pe = None,
         forward = ''_1'', reverse = ''_2''\<rparr>) = 2"
    by code_simp
  from 1 2 3 4 5 6 7 show ?thesis by blast
qed

text \<open>The two files of one key, in the theorem.\<close>

theorem single_end_counts_every_file_witness:
  "truthy (input_se \<lparr>input_se = Some [''a/x.fastq'', ''b/x.fastq''], input_pe = None,
         forward = ''_1'', reverse = ''_2''\<rparr>) \<and>
   num_single_readsets (read_file_sets \<lparr>input_se = Some [''a/x.fastq'', ''b/x.fastq''],
         input_pe = None, forward = ''_1'', reverse = ''_2''\<rparr>) = 2 \<and>
   stdout (read_file_sets \<lparr>input_se = Some [''a/x.fastq'', ''b/x.fastq''],
         input_pe = None, forward = ''_1'', reverse = ''_2''\<rparr>) = [''Total single reads found:2'']"
proof -
  let ?args = "\<lparr>input_se = Some [''a/x.fastq'', ''b/x.fastq''], input_pe = None,
         forward = ''_1'', reverse = ''_2''\<rparr>"
  have h: "truthy (input_se ?args)"
    by (simp add: truthy_def)
  have s: "str (Suc (Suc 0)) = ''2''" by code_simp
  from single_end_counts_every_file [OF h]
  have "num_single_readsets (read_file_sets ?args) = length (items (input_se ?args))"
    and "stdout (read_file_sets ?args) =
       [''Total single reads found:'' @ str (length (items (input_se ?args)))]"
    by blast+
  with h s show ?thesis
    by (simp add: items_def)
qed

subsection \<open>Paired-end mode\<close>

lemma read_file_sets_paired_reads:
  "\<not> truthy (input_se args) \<Longrightarrow>
   forward_reads (read_file_sets args) = forward_reads (classified args) \<and>
   reverse_reads (read_file_sets args) = reverse_reads (classified args)"
  by (simp add: read_file_sets_paired print_totals_fields paired_end_reads)

lemma read_file_sets_paired_lookup:
  assumes "\<not> truthy (input_se args)"
  shows "map_of (fileSets (read_file_sets args)) k =
     (case map_of (forward_reads (read_file_sets args)) k of
        Some fwd \<Rightarrow>
          Some (case map_of (reverse_reads (read_file_sets args)) k of
                  Some rv \<Rightarrow> Files [fwd, rv]
                | None \<Rightarrow> Files [fwd])
      | None \<Rightarrow>
          (case map_of (fileSets (classified args)) k of
             Some e \<Rightarrow> Some e
           | None \<Rightarrow> map_option Bare (map_of (reverse_reads (read_file_sets args)) k)))"
  unfolding read_file_sets_paired_reads [OF assms, THEN conjunct1]
    read_file_sets_paired_reads [OF assms, THEN conjunct2]
  by (simp add: read_file_sets_paired [OF assms] print_totals_fields paired_end_lookup)

lemma read_file_sets_paired_stdout:
  assumes "\<not> truthy (input_se args)"
  shows "set (stdout (classified args)) \<subseteq> set (stdout (read_file_sets args))"
    and "map_of (forward_reads (read_file_sets args)) k = Some fwd \<Longrightarrow>
         map_of (reverse_reads (read_file_sets args)) k = None \<Longrightarrow>
         no_pair fwd \<in> set (stdout (read_file_sets args))"
proof -
  have s: "set (stdout (paired_end args initial)) \<subseteq> set (stdout (read_file_sets args))"
    by (simp add: read_file_sets_paired [OF assms] print_totals_fields)
  with paired_end_stdout [of args]
  show "set (stdout (classified args)) \<subseteq> set (stdout (read_file_sets args))"
    by blast
  assume "map_of (forward_reads (read_file_sets args)) k = Some fwd"
    "map_of (reverse_reads (read_file_sets args)) k = None"
  then have "no_pair fwd \<in> set (stdout (paired_end args initial))"
    using paired_end_stdout [of args] by (simp add: read_file_sets_paired_reads [OF assms])
  with s show "no_pair fwd \<in> set (stdout (read_file_sets args))" by blast
qed

lemma classified_ambiguous_entry:
  assumes "p \<in> set (items (input_pe args))" "classify args p = Ambiguous k"
  shows "\<exists>q. q \<in> set (items (input_pe args)) \<and> classify args q = Ambiguous k \<and>
     map_of (fileSets (classified args)) k = Some (Bare q)"
proof -
  from assms have "k \<in> set (ambiguous_stems args (items (input_pe args)))"
    by (auto simp: set_ambiguous_stems)
  then have "map_of (fileSets (classified args)) k \<noteq> None"
    by (simp add: classified_None)
  then obtain e where e: "map_of (fileSets (classified args)) k = Some e" by auto
  from classified_fileSets [OF this] e show ?thesis by auto
qed

text \<open>
  C7. In paired-end mode, with designators that are plain strings: a sample with a
  forward read and no reverse read under its key gets the entry that holds the forward
  file alone, and the warning that no pair was found for that file is printed; a key
  holds a list of two files exactly when it has a forward and a reverse read, and they
  are the two; the paired count is the number of forward reads whose key has a reverse
  read; and the single count is the number of MiSeq names with another \<open>_R\<close> group,
  plus one for each forward read without a reverse read, plus one for each reverse read
  whose key has no forward read and is the stem of no such MiSeq name.
\<close>

theorem pairing_reconciliation:
  assumes "\<not> truthy (input_se args)"
    and "plain_designator (forward args)" and "plain_designator (reverse args)"
  shows
    "(\<forall>k fwd. map_of (forward_reads (read_file_sets args)) k = Some fwd \<and>
        map_of (reverse_reads (read_file_sets args)) k = None \<longrightarrow>
        map_of (fileSets (read_file_sets args)) k = Some (Files [fwd]) \<and>
        no_pair fwd \<in> set (stdout (read_file_sets args))) \<and>
     (\<forall>k fwd rv. map_of (fileSets (read_file_sets args)) k = Some (Files [fwd, rv]) \<longleftrightarrow>
        map_of (forward_reads (read_file_sets args)) k = Some fwd \<and>
        map_of (reverse_reads (read_file_sets args)) k = Some rv) \<and>
     num_paired_readsets (read_file_sets args) =
       length (filter (\<lambda>item. map_of (reverse_reads (read_file_sets args)) (fst item) \<noteq> None)
         (forward_reads (read_file_sets args))) \<and>
     num_single_readsets (read_file_sets args) =
       length (ambiguous_stems args (items (input_pe args))) +
       length (filter (\<lambda>item. map_of (reverse_reads (read_file_sets args)) (fst item) = None)
         (forward_reads (read_file_sets args))) +
       length (filter (\<lambda>item. map_of (forward_reads (read_file_sets args)) (fst item) = None \<and>
                   fst item \<notin> set (ambiguous_stems args (items (input_pe args))))
         (reverse_reads (read_file_sets args)))"
proof -
  note se = assms(1)
  let ?r = "read_file_sets args"
  have 1: "map_of (fileSets ?r) k = Some (Files [fwd]) \<and> no_pair fwd \<in> set (stdout ?r)"
    if "map_of (forward_reads ?r) k = Some fwd" "map_of (reverse_reads ?r) k = None" for k fwd
    using that read_file_sets_paired_stdout(2) [OF se that]
    by (simp add: read_file_sets_paired_lookup [OF se])
  have 2: "map_of (fileSets ?r) k = Some (Files [fwd, rv]) \<longleftrightarrow>
      map_of (forward_reads ?r) k = Some fwd \<and> map_of (reverse_reads ?r) k = Some rv"
    for k fwd rv
    by (auto simp: read_file_sets_paired_lookup [OF se] split: option.splits
        dest: classified_fileSets)
  have 3: "num_paired_readsets ?r =
       length (filter (\<lambda>item. map_of (reverse_reads ?r) (fst item) \<noteq> None) (forward_reads ?r))"
    unfolding read_file_sets_paired_reads [OF se, THEN conjunct1]
      read_file_sets_paired_reads [OF se, THEN conjunct2]
    by (simp add: read_file_sets_paired [OF se] print_totals_fields paired_end_counts)
  have 4: "num_single_readsets ?r =
       length (ambiguous_stems args (items (input_pe args))) +
       length (filter (\<lambda>item. map_of (reverse_reads ?r) (fst item) = None) (forward_reads ?r)) +
       length (filter (\<lambda>item. map_of (forward_reads ?r) (fst item) = None \<and>
                   fst item \<notin> set (ambiguous_stems args (items (input_pe args))))
         (reverse_reads ?r))"
    unfolding read_file_sets_paired_reads [OF se, THEN conjunct1]
      read_file_sets_paired_reads [OF se, THEN conjunct2]
    by (simp add: read_file_sets_paired [OF se] print_totals_fields paired_end_counts)
  from 1 2 3 4 show ?thesis by blast
qed

text \<open>The file \<open>sampleA_1.fastq.gz\<close> alone, with the default designators.\<close>

theorem pairing_reconciliation_witness:
  "\<not> truthy (input_se \<lparr>input_se = None, input_pe = Some [''sampleA_1.fastq.gz''],
       forward = ''_1'', reverse = ''_2''\<rparr>) \<and>
   plain_designator ''_1'' \<and> plain_designator ''_2'' \<and>
   map_of (fileSets (read_file_sets \<lparr>input_se = None, input_pe = Some [''sampleA_1.fastq.gz''],
       forward = ''_1'', reverse = ''_2''\<rparr>)) ''sampleA'' = Some (Files [''sampleA_1.fastq.gz'']) \<and>
   no_pair ''sampleA_1.fastq.gz'' \<in> set (stdout (read_file_sets
      \<lparr>input_se = None, input_pe = Some [''sampleA_1.fastq.gz''],
       forward = ''_1'', reverse = ''_2''\<rparr>)) \<and>
   num_single_readsets (read_file_sets \<lparr>input_se = None, input_pe = Some [''sampleA_1.fastq.gz''],
       forward = ''_1'', reverse = ''_2''\<rparr>) = 1 \<and>
   num_paired_readsets (read_file_sets \<lparr>input_se = None, input_pe = Some [''sampleA_1.fastq.gz''],
       forward = ''_1'', reverse = ''_2''\<rparr>) = 0"
proof -
  let ?args = "\<lparr>input_se = None, input_pe = Some [''sampleA_1.fastq.gz''],
       forward = ''_1'', reverse = ''_2''\<rparr>"
  have h: "\<not> truthy (input_se ?args)" "plain_designator (forward ?args)"
    "plain_designator (reverse ?args)"
    by (simp_all add: truthy_def plain_designator_def)
  have f: "map_of (forward_reads (read_file_sets ?args)) ''sampleA'' = Some ''sampleA_1.fastq.gz''"
    by code_simp
  have r: "map_of (reverse_reads (read_file_sets ?args)) ''sampleA'' = None"
    by code_simp
  have n: "num_single_readsets (read_file_sets ?args) = 1" "num_paired_readsets (read_file_sets ?args) = 0"
    by code_simp+
  from pairing_reconciliation [OF h] f r
  have "map_of (fileSets (read_file_sets ?args)) ''sampleA'' = Some (Files [''sampleA_1.fastq.gz'']) \<and>
        no_pair ''sampleA_1.fastq.gz'' \<in> set (stdout (read_file_sets ?args))"
    by blast
  with h n show ?thesis by simp
qed

text \<open>
  What a key holds after the loops, by the last file of each kind that the input has for
  the key.
\<close>

lemma fold_single_end_lookup:
  "map_of (fileSets (fold single_end_body fs st)) k =
     (case last_with_key fs k of
        Some f \<Rightarrow> Some (Files [f])
      | None \<Rightarrow> map_of (fileSets st) k)"
proof (induction fs arbitrary: st)
  case Nil
  show ?case by simp
next
  case (Cons f fs)
  show ?case
    unfolding fold_simps comp_def Cons.IH [of "single_end_body f st"]
    by (simp add: single_end_body_eq update_conv' split: option.splits)
qed

lemma last_with_key_SomeD:
  "last_with_key fs k = Some f \<Longrightarrow> f \<in> set fs \<and> single_end_key f = k"
  by (induction fs) (auto split: option.splits if_splits)

lemma fold_classify_forward_lookup:
  "map_of (forward_reads (fold (paired_end_body args) fs st)) k =
     (case last_of_class args fs (Forward k) of
        Some p \<Rightarrow> Some p
      | None \<Rightarrow> map_of (forward_reads st) k)"
proof (induction fs arbitrary: st)
  case Nil
  show ?case by simp
next
  case (Cons f fs)
  show ?case
    unfolding fold_simps comp_def Cons.IH [of "paired_end_body args f st"]
    by (auto simp: paired_end_body_classify update_conv' split: option.splits read_class.splits)
qed

lemma fold_classify_reverse_lookup:
  "map_of (reverse_reads (fold (paired_end_body args) fs st)) k =
     (case last_of_class args fs (Reverse k) of
        Some p \<Rightarrow> Some p
      | None \<Rightarrow> map_of (reverse_reads st) k)"
proof (induction fs arbitrary: st)
  case Nil
  show ?case by simp
next
  case (Cons f fs)
  show ?case
    unfolding fold_simps comp_def Cons.IH [of "paired_end_body args f st"]
    by (auto simp: paired_end_body_classify update_conv' split: option.splits read_class.splits)
qed

lemma fold_classify_fileSets_lookup:
  "map_of (fileSets (fold (paired_end_body args) fs st)) k =
     (case last_of_class args fs (Ambiguous k) of
        Some p \<Rightarrow> Some (Bare p)
      | None \<Rightarrow> map_of (fileSets st) k)"
proof (induction fs arbitrary: st)
  case Nil
  show ?case by simp
next
  case (Cons f fs)
  show ?case
    unfolding fold_simps comp_def Cons.IH [of "paired_end_body args f st"]
    by (auto simp: paired_end_body_classify update_conv' split: option.splits read_class.splits)
qed

lemma last_of_class_SomeD:
  "last_of_class args fs c = Some p \<Longrightarrow> p \<in> set fs \<and> classify args p = c"
  by (induction fs) (auto split: option.splits if_splits)

lemma last_of_class_None:
  "last_of_class args fs c = None \<longleftrightarrow> (\<forall>p \<in> set fs. classify args p \<noteq> c)"
  by (induction fs) (auto split: option.splits if_splits)

lemma classified_lookups:
  "map_of (forward_reads (classified args)) k = last_of_class args (items (input_pe args)) (Forward k)"
  "map_of (reverse_reads (classified args)) k = last_of_class args (items (input_pe args)) (Reverse k)"
  "map_of (fileSets (classified args)) k =
     map_option Bare (last_of_class args (items (input_pe args)) (Ambiguous k))"
  by (simp_all add: classified_def fold_classify_forward_lookup fold_classify_reverse_lookup
      fold_classify_fileSets_lookup initial_def split: option.splits)

lemma read_file_sets_paired_entries:
  assumes "\<not> truthy (input_se args)"
  shows "map_of (fileSets (read_file_sets args)) k =
     (case last_of_class args (items (input_pe args)) (Forward k) of
        Some fwd \<Rightarrow>
          Some (case last_of_class args (items (input_pe args)) (Reverse k) of
                  Some rv \<Rightarrow> Files [fwd, rv]
                | None \<Rightarrow> Files [fwd])
      | None \<Rightarrow>
          (case last_of_class args (items (input_pe args)) (Ambiguous k) of
             Some p \<Rightarrow> Some (Bare p)
           | None \<Rightarrow> map_option Bare (last_of_class args (items (input_pe args)) (Reverse k))))"
  unfolding read_file_sets_paired_lookup [OF assms]
    read_file_sets_paired_reads [OF assms, THEN conjunct1]
    read_file_sets_paired_reads [OF assms, THEN conjunct2] classified_lookups
  by (simp split: option.splits)

lemma main_input_option_Bare:
  "1 < length p \<Longrightarrow>
   main_input_option args (Bare p) =
     Some ('' --input_pe '' @ [p ! 0] @ '' '' @ [p ! 1] @
           '' --forward '' @ forward args @ '' --reverse '' @ reverse args)"
  by (auto simp: main_input_option_def)

lemma classify_ambiguous:
  "get_readFile_components fastq = (file_path, stem, full_ext) \<Longrightarrow>
   match_illumina stem = Some (baseName, g2, g3, read, g5) \<Longrightarrow>
   read \<noteq> ''_R1'' \<Longrightarrow> read \<noteq> ''_R2'' \<Longrightarrow> classify args fastq = Ambiguous stem"
  by (simp add: classify_def)

lemma match_illumina_proper:
  "match_illumina stem = Some (baseName, g2, g3, read, g5) \<Longrightarrow> stem \<noteq> baseName"
  by (drule match_illumina_SomeD) auto

lemma read_file_sets_one_ambiguous:
  assumes "input_se args = None" "input_pe args = Some [fastq]"
    "classify args fastq = Ambiguous stem"
  shows "fileSets (read_file_sets args) = [(stem, Bare fastq)] \<and>
     num_single_readsets (read_file_sets args) = 1 \<and>
     num_paired_readsets (read_file_sets args) = 0"
proof -
  have "\<not> truthy (input_se args)" using assms(1) by (simp add: truthy_def)
  then have r: "read_file_sets args = print_totals (paired_end args initial)"
    by (rule read_file_sets_paired)
  have "paired_end args initial =
      initial\<lparr>stdout := [undetermined fastq, miseq_hint],
              fileSets := [(stem, Bare fastq)], num_single_readsets := 1\<rparr>"
    using assms
    by (simp add: paired_end_def items_def paired_end_body_classify initial_def
        store_reverse_body_def)
  then show ?thesis
    by (simp add: r print_totals_fields initial_def)
qed

subsection \<open>Classification by designator\<close>

text \<open>
  C6. The specification has every stem that ends with the forward designator, and does not match
  the MiSeq pattern, classified as a forward read. The stem of the file named \<open>a\<close>,
  line feed, \<open>b_1.fastq\<close> ends with \<open>_1\<close> and does not match the MiSeq pattern, but
  \<open>.*\<close> does not pass the line feed: the file is reported as undetermined and no
  forward read is stored.
\<close>

theorem suffix_classification_line_feed:
  "get_readFile_components (''a'' @ LF # ''b_1.fastq'') = ('''', ''a'' @ LF # ''b_1'', ''.fastq'') \<and>
   match_illumina (''a'' @ LF # ''b_1'') = None \<and>
   ''a'' @ LF # ''b_1'' = (''a'' @ LF # ''b'') @ ''_1'' \<and>
   paired_end_body
     \<lparr>input_se = None, input_pe = Some [''a'' @ LF # ''b_1.fastq''],
      forward = ''_1'', reverse = ''_2''\<rparr>
     (''a'' @ LF # ''b_1.fastq'') initial
   = py_print (undetermined (''a'' @ LF # ''b_1.fastq'')) initial \<and>
   forward_reads (paired_end_body
     \<lparr>input_se = None, input_pe = Some [''a'' @ LF # ''b_1.fastq''],
      forward = ''_1'', reverse = ''_2''\<rparr>
     (''a'' @ LF # ''b_1.fastq'') initial) = []"
  by code_simp

text \<open>
  C6, as amended. For a paired-end file whose stem has no line feed and does not match
  the MiSeq pattern, with designators that are plain strings: when the stem ends with
  the forward designator the loop stores the file as the forward read of the stem
  without that suffix; when it does not, and ends with the reverse designator, the loop
  stores the file as the reverse read of the stem without that suffix.
\<close>

theorem suffix_classification:
  assumes "get_readFile_components fastq = (file_path, stem, full_ext)"
    and "match_illumina stem = None"
    and "LF \<notin> set stem"
    and "plain_designator (forward args)" and "plain_designator (reverse args)"
  shows
    "(stem = key @ forward args \<longrightarrow>
        paired_end_body args fastq st =
          st\<lparr>forward_reads := AList.update key fastq (forward_reads st)\<rparr>) \<and>
     ((\<forall>b. stem \<noteq> b @ forward args) \<and> stem = key @ reverse args \<longrightarrow>
        paired_end_body args fastq st =
          st\<lparr>reverse_reads := AList.update key fastq (reverse_reads st)\<rparr>)"
proof -
  have 1: "paired_end_body args fastq st =
          st\<lparr>forward_reads := AList.update key fastq (forward_reads st)\<rparr>"
    if s: "stem = key @ forward args"
  proof -
    from assms(3) s have "LF \<notin> set key" "LF \<notin> set (forward args)" by auto
    then have "match_designator (forward args) stem = Some (key, forward args)"
      unfolding s by (rule match_designator_suffix)
    with assms(1,2) show ?thesis
      by (simp add: paired_end_body_def)
  qed
  have 2: "paired_end_body args fastq st =
          st\<lparr>reverse_reads := AList.update key fastq (reverse_reads st)\<rparr>"
    if n: "\<forall>b. stem \<noteq> b @ forward args" and s: "stem = key @ reverse args"
  proof -
    from assms(3) n have f: "match_designator (forward args) stem = None"
      by (intro match_designator_None) auto
    from assms(3) s have "LF \<notin> set key" "LF \<notin> set (reverse args)" by auto
    then have "match_designator (reverse args) stem = Some (key, reverse args)"
      unfolding s by (rule match_designator_suffix)
    with f assms(1,2) show ?thesis
      by (simp add: paired_end_body_def)
  qed
  from 1 2 show ?thesis by blast
qed

text \<open>The files \<open>reads/sampleA_1.fastq.gz\<close> and \<open>reads/sampleA_2.fastq.gz\<close>.\<close>

theorem suffix_classification_witness:
  "get_readFile_components ''reads/sampleA_1.fastq.gz'' = (''reads'', ''sampleA_1'', ''.fastq.gz'') \<and>
   match_illumina ''sampleA_1'' = None \<and> LF \<notin> set ''sampleA_1'' \<and>
   plain_designator ''_1'' \<and> plain_designator ''_2'' \<and>
   ''sampleA_1'' = ''sampleA'' @ ''_1'' \<and>
   paired_end_body \<lparr>input_se = None, input_pe = Some [''reads/sampleA_1.fastq.gz''],
       forward = ''_1'', reverse = ''_2''\<rparr> ''reads/sampleA_1.fastq.gz'' initial =
     initial\<lparr>forward_reads := [(''sampleA'', ''reads/sampleA_1.fastq.gz'')]\<rparr> \<and>
   get_readFile_components ''reads/sampleA_2.fastq.gz'' = (''reads'', ''sampleA_2'', ''.fastq.gz'') \<and>
   match_illumina ''sampleA_2'' = None \<and> LF \<notin> set ''sampleA_2'' \<and>
   ''sampleA_2'' = ''sampleA'' @ ''_2'' \<and>
   paired_end_body \<lparr>input_se = None, input_pe = Some [''reads/sampleA_1.fastq.gz''],
       forward = ''_1'', reverse = ''_2''\<rparr> ''reads/sampleA_2.fastq.gz'' initial =
     initial\<lparr>reverse_reads := [(''sampleA'', ''reads/sampleA_2.fastq.gz'')]\<rparr>"
proof -
  let ?args = "\<lparr>input_se = None, input_pe = Some [''reads/sampleA_1.fastq.gz''],
       forward = ''_1'', reverse = ''_2''\<rparr>"
  have a1: "get_readFile_components ''reads/sampleA_1.fastq.gz'' =
      (''reads'', ''sampleA_1'', ''.fastq.gz'')"
    by code_simp
  have a2: "match_illumina ''sampleA_1'' = None" by code_simp
  have a3: "LF \<notin> set ''sampleA_1''" by simp
  have b1: "get_readFile_components ''reads/sampleA_2.fastq.gz'' =
      (''reads'', ''sampleA_2'', ''.fastq.gz'')"
    by code_simp
  have b2: "match_illumina ''sampleA_2'' = None" by code_simp
  have b3: "LF \<notin> set ''sampleA_2''" by simp
  have p: "plain_designator (forward ?args)" "plain_designator (reverse ?args)"
    by (simp_all add: plain_designator_def)
  have n: "\<forall>b. ''sampleA_2'' \<noteq> b @ forward ?args"
    by (auto simp: append_eq_Cons_conv Cons_eq_append_conv)
  from suffix_classification [OF a1 a2 a3 p, of "''sampleA''" initial]
  have f: "paired_end_body ?args ''reads/sampleA_1.fastq.gz'' initial =
     initial\<lparr>forward_reads := [(''sampleA'', ''reads/sampleA_1.fastq.gz'')]\<rparr>"
    by (simp add: initial_def)
  from suffix_classification [OF b1 b2 b3 p, of "''sampleA''" initial] n
  have r: "paired_end_body ?args ''reads/sampleA_2.fastq.gz'' initial =
     initial\<lparr>reverse_reads := [(''sampleA'', ''reads/sampleA_2.fastq.gz'')]\<rparr>"
    by (simp add: initial_def)
  from a1 a2 b1 b2 p f r show ?thesis by simp
qed

subsection \<open>Input files and entries\<close>

lemma read_file_sets_distinct: "distinct (map fst (fileSets (read_file_sets args)))"
proof (cases "truthy (input_se args)")
  case True
  have "distinct (map fst (fileSets (fold single_end_body (items (input_se args)) initial)))"
    by (rule fold_single_end_distinct) (simp add: initial_def)
  then show ?thesis
    by (simp add: read_file_sets_single [OF True] print_totals_fields)
next
  case False
  then show ?thesis
    by (simp add: read_file_sets_paired print_totals_fields paired_end_distinct)
qed

lemma read_file_sets_single_entry:
  assumes "truthy (input_se args)" "(k, e) \<in> set (fileSets (read_file_sets args))"
  shows "\<exists>f \<in> set (items (input_se args)). e = Files [f] \<and> k = single_end_key f"
  using assms(2) unfolding read_file_sets_single [OF assms(1)]
  by (simp add: print_totals_fields single_end_all_files)

lemma read_file_sets_paired_entry:
  assumes "\<not> truthy (input_se args)"
    and "map_of (fileSets (read_file_sets args)) k = Some e" and "p \<in> set (entry_files e)"
  shows "p \<in> set (items (input_pe args)) \<and>
     (classify args p = Forward k \<or> classify args p = Reverse k \<or>
      classify args p = Ambiguous k)"
proof (cases "map_of (forward_reads (classified args)) k")
  case None
  show ?thesis
  proof (cases "map_of (fileSets (classified args)) k")
    case None
    with \<open>map_of (forward_reads (classified args)) k = None\<close> assms(2)
    obtain rv where "map_of (reverse_reads (classified args)) k = Some rv" "e = Bare rv"
      by (auto simp: read_file_sets_paired_lookup [OF assms(1)]
          read_file_sets_paired_reads [OF assms(1)])
    with assms(3) classified_reverse [of args k rv] show ?thesis by simp
  next
    case (Some e')
    with None assms(2) have "e = e'"
      by (simp add: read_file_sets_paired_lookup [OF assms(1)]
          read_file_sets_paired_reads [OF assms(1)])
    with classified_fileSets [OF Some] assms(3) show ?thesis by auto
  qed
next
  case (Some fwd)
  note f = classified_forward [OF Some]
  show ?thesis
  proof (cases "map_of (reverse_reads (classified args)) k")
    case None
    with Some assms(2) have "e = Files [fwd]"
      by (simp add: read_file_sets_paired_lookup [OF assms(1)]
          read_file_sets_paired_reads [OF assms(1)])
    with f assms(3) show ?thesis by simp
  next
    case (Some rv)
    with \<open>map_of (forward_reads (classified args)) k = Some fwd\<close> assms(2)
    have "e = Files [fwd, rv]"
      by (simp add: read_file_sets_paired_lookup [OF assms(1)]
          read_file_sets_paired_reads [OF assms(1)])
    with f classified_reverse [OF Some] assms(3) show ?thesis by auto
  qed
qed

subsection \<open>Counters and entries\<close>

lemma entries_holding_keys:
  assumes "distinct (map fst d)"
    and "\<And>k e. map_of d k = Some e \<Longrightarrow> (length (entry_files e) = n) = P k"
  shows "entries_holding n d = card {k \<in> fst ` set d. P k}"
proof -
  have "filter (\<lambda>item. length (entry_files (snd item)) = n) d =
        filter (\<lambda>item. P (fst item)) d"
  proof (rule filter_cong [OF refl])
    fix item assume "item \<in> set d"
    with assms(1) have "map_of d (fst item) = Some (snd item)" by simp
    then show "(length (entry_files (snd item)) = n) = P (fst item)" by (rule assms(2))
  qed
  then show ?thesis
    by (simp add: entries_holding_def length_filter_keys [OF assms(1)])
qed

lemma single_end_entries_holding:
  "entries_holding 2 (fileSets (fold single_end_body fs initial)) = 0 \<and>
   entries_holding 1 (fileSets (fold single_end_body fs initial)) =
     card (single_end_key ` set fs)"
proof -
  let ?d = "fileSets (fold single_end_body fs initial)"
  have "filter (\<lambda>item. length (entry_files (snd item)) = 2) ?d = []"
    by (auto simp: filter_empty_conv dest: single_end_all_files)
  moreover have "filter (\<lambda>item. length (entry_files (snd item)) = 1) ?d = ?d"
    by (auto simp: filter_id_conv dest: single_end_all_files)
  ultimately show ?thesis
    by (simp add: entries_holding_def single_end_length)
qed

lemma paired_keys:
  assumes "\<not> truthy (input_se args)"
  shows "fst ` set (fileSets (read_file_sets args)) =
     fst ` set (forward_reads (read_file_sets args)) \<union>
     set (ambiguous_stems args (items (input_pe args))) \<union>
     fst ` set (reverse_reads (read_file_sets args))"
proof -
  have "k \<in> fst ` set (fileSets (read_file_sets args)) \<longleftrightarrow>
      k \<in> fst ` set (forward_reads (read_file_sets args)) \<union>
        set (ambiguous_stems args (items (input_pe args))) \<union>
        fst ` set (reverse_reads (read_file_sets args))" for k
  proof -
    have "k \<in> fst ` set (fileSets (read_file_sets args)) \<longleftrightarrow>
        map_of (fileSets (read_file_sets args)) k \<noteq> None"
      by (simp add: map_of_eq_None_iff)
    also have "\<dots> \<longleftrightarrow> map_of (forward_reads (read_file_sets args)) k \<noteq> None \<or>
        map_of (fileSets (classified args)) k \<noteq> None \<or>
        map_of (reverse_reads (read_file_sets args)) k \<noteq> None"
      by (auto simp: read_file_sets_paired_lookup [OF assms] split: option.splits)
    also have "\<dots> \<longleftrightarrow> k \<in> fst ` set (forward_reads (read_file_sets args)) \<union>
        set (ambiguous_stems args (items (input_pe args))) \<union>
        fst ` set (reverse_reads (read_file_sets args))"
      by (simp add: map_of_eq_None_iff classified_keys)
    finally show ?thesis .
  qed
  then show ?thesis by blast
qed

lemma paired_entry_length:
  assumes "\<not> truthy (input_se args)"
    and "map_of (fileSets (read_file_sets args)) k = Some e"
  shows "(length (entry_files e) = 2) =
       (map_of (forward_reads (read_file_sets args)) k \<noteq> None \<and>
        map_of (reverse_reads (read_file_sets args)) k \<noteq> None)"
    and "(length (entry_files e) = 1) =
       (\<not> (map_of (forward_reads (read_file_sets args)) k \<noteq> None \<and>
           map_of (reverse_reads (read_file_sets args)) k \<noteq> None))"
  using assms(2)
  by (auto simp: read_file_sets_paired_lookup [OF assms(1)] split: option.splits
      dest: classified_fileSets)


lemma read_file_sets_paired_counts:
  assumes "\<not> truthy (input_se args)"
  shows "num_paired_readsets (read_file_sets args) =
       length (filter (\<lambda>item. map_of (reverse_reads (read_file_sets args)) (fst item) \<noteq> None)
         (forward_reads (read_file_sets args)))"
    and "num_single_readsets (read_file_sets args) =
       length (ambiguous_stems args (items (input_pe args))) +
       length (filter (\<lambda>item. map_of (reverse_reads (read_file_sets args)) (fst item) = None)
         (forward_reads (read_file_sets args))) +
       length (filter (\<lambda>item. map_of (forward_reads (read_file_sets args)) (fst item) = None \<and>
                   fst item \<notin> set (ambiguous_stems args (items (input_pe args))))
         (reverse_reads (read_file_sets args)))"
  unfolding read_file_sets_paired_reads [OF assms, THEN conjunct1]
    read_file_sets_paired_reads [OF assms, THEN conjunct2]
  by (simp_all add: read_file_sets_paired [OF assms] print_totals_fields paired_end_counts)

lemma paired_counters_and_entries:
  assumes se: "\<not> truthy (input_se args)"
  shows "num_paired_readsets (read_file_sets args) =
       entries_holding 2 (fileSets (read_file_sets args)) \<and>
     entries_holding 1 (fileSets (read_file_sets args)) \<le>
       num_single_readsets (read_file_sets args) \<and>
     (distinct (ambiguous_stems args (items (input_pe args))) \<and>
      set (ambiguous_stems args (items (input_pe args))) \<inter>
        fst ` set (forward_reads (read_file_sets args)) = {} \<longrightarrow>
      num_single_readsets (read_file_sets args) =
        entries_holding 1 (fileSets (read_file_sets args)))"
proof -
  let ?r = "read_file_sets args"
  let ?F = "forward_reads ?r" and ?R = "reverse_reads ?r" and ?D = "fileSets ?r"
  let ?amb = "ambiguous_stems args (items (input_pe args))"
  let ?S1 = "{k \<in> fst ` set ?F. map_of ?R k = None}"
  let ?S2 = "{k \<in> set ?amb. map_of ?F k = None}"
  let ?S3 = "{k \<in> fst ` set ?R. map_of ?F k = None \<and> k \<notin> set ?amb}"
  have dF: "distinct (map fst ?F)" and dR: "distinct (map fst ?R)"
    using classified_distinct [of args] by (simp_all add: read_file_sets_paired_reads [OF se])
  have dD: "distinct (map fst ?D)" by (rule read_file_sets_distinct)
  have keys: "fst ` set ?D = fst ` set ?F \<union> set ?amb \<union> fst ` set ?R"
    by (rule paired_keys [OF se])
  have "entries_holding 2 ?D =
      card {k \<in> fst ` set ?D. map_of ?F k \<noteq> None \<and> map_of ?R k \<noteq> None}"
    by (rule entries_holding_keys [OF dD]) (rule paired_entry_length(1) [OF se])
  also have "{k \<in> fst ` set ?D. map_of ?F k \<noteq> None \<and> map_of ?R k \<noteq> None} =
      {k \<in> fst ` set ?F. map_of ?R k \<noteq> None}"
    unfolding keys by (auto simp: map_of_eq_None_iff)
  also have "card \<dots> = length (filter (\<lambda>item. map_of ?R (fst item) \<noteq> None) ?F)"
    by (rule length_filter_keys [OF dF, symmetric])
  finally have two: "num_paired_readsets ?r = entries_holding 2 ?D"
    by (simp add: read_file_sets_paired_counts(1) [OF se])
  have "entries_holding 1 ?D =
      card {k \<in> fst ` set ?D. \<not> (map_of ?F k \<noteq> None \<and> map_of ?R k \<noteq> None)}"
    by (rule entries_holding_keys [OF dD]) (rule paired_entry_length(2) [OF se])
  also have "{k \<in> fst ` set ?D. \<not> (map_of ?F k \<noteq> None \<and> map_of ?R k \<noteq> None)} =
      ?S1 \<union> (?S2 \<union> ?S3)"
    unfolding keys by (auto simp: map_of_eq_None_iff)
  also have "card \<dots> = card ?S1 + card (?S2 \<union> ?S3)"
    by (rule card_Un_disjoint) (auto simp: map_of_eq_None_iff)
  also have "card (?S2 \<union> ?S3) = card ?S2 + card ?S3"
    by (rule card_Un_disjoint) auto
  finally have one: "entries_holding 1 ?D = card ?S1 + (card ?S2 + card ?S3)" .
  have s1: "length (filter (\<lambda>item. map_of ?R (fst item) = None) ?F) = card ?S1"
    by (rule length_filter_keys [OF dF])
  have s3: "length (filter (\<lambda>item. map_of ?F (fst item) = None \<and> fst item \<notin> set ?amb) ?R) =
      card ?S3"
    by (rule length_filter_keys [OF dR])
  have single: "num_single_readsets ?r = length ?amb + card ?S1 + card ?S3"
    by (simp add: read_file_sets_paired_counts(2) [OF se] s1 s3)
  have "card ?S2 \<le> card (set ?amb)"
    by (rule card_mono) auto
  also have "\<dots> \<le> length ?amb" by (rule card_length)
  finally have le: "card ?S2 \<le> length ?amb" .
  have eq: "card ?S2 = length ?amb"
    if "distinct ?amb" "set ?amb \<inter> fst ` set ?F = {}"
  proof -
    from that(2) have "?S2 = set ?amb"
      by (auto simp: map_of_eq_None_iff)
    with that(1) show ?thesis by (simp add: distinct_card)
  qed
  from two one single le eq show ?thesis by simp
qed

lemma single_counters_and_entries:
  assumes se: "truthy (input_se args)"
  shows "num_paired_readsets (read_file_sets args) =
       entries_holding 2 (fileSets (read_file_sets args)) \<and>
     entries_holding 1 (fileSets (read_file_sets args)) \<le>
       num_single_readsets (read_file_sets args) \<and>
     (distinct (map single_end_key (items (input_se args))) \<longrightarrow>
      num_single_readsets (read_file_sets args) =
        entries_holding 1 (fileSets (read_file_sets args)))"
proof -
  let ?fs = "items (input_se args)"
  have r: "read_file_sets args = print_totals (fold single_end_body ?fs initial)"
    using se by (rule read_file_sets_single)
  have n: "num_single_readsets (read_file_sets args) = length ?fs"
    "num_paired_readsets (read_file_sets args) = 0"
    by (simp_all add: r print_totals_fields fold_single_end_counts initial_def)
  have e: "entries_holding 2 (fileSets (read_file_sets args)) = 0"
    "entries_holding 1 (fileSets (read_file_sets args)) = card (single_end_key ` set ?fs)"
    using single_end_entries_holding [of ?fs] by (simp_all add: r print_totals_fields)
  have le: "card (single_end_key ` set ?fs) \<le> length ?fs"
    by (metis card_image_le card_length le_trans List.finite_set)
  have eq: "card (single_end_key ` set ?fs) = length ?fs"
    if "distinct (map single_end_key ?fs)"
    using distinct_card [OF that] by simp
  from n e le eq show ?thesis by simp
qed

text \<open>
  C8. The specification has the single count equal to the number of entries that hold one file,
  also when files derive the same key. The single-end files \<open>a/x.fastq\<close> and
  \<open>b/x.fastq\<close> derive the key \<open>x\<close>: the single count is 2 and one entry holds one
  file.
\<close>

theorem single_count_exceeds_entries:
  "num_single_readsets (read_file_sets
      \<lparr>input_se = Some [''a/x.fastq'', ''b/x.fastq''], input_pe = None,
       forward = ''_1'', reverse = ''_2''\<rparr>) = 2 \<and>
   entries_holding 1 (fileSets (read_file_sets
      \<lparr>input_se = Some [''a/x.fastq'', ''b/x.fastq''], input_pe = None,
       forward = ''_1'', reverse = ''_2''\<rparr>)) = 1 \<and>
   single_end_key ''a/x.fastq'' = single_end_key ''b/x.fastq''"
  by code_simp

text \<open>
  C8, as amended. With designators that are plain strings: the paired count is the
  number of entries that hold two files, and the single count is at least the number of
  entries that hold one file. The two are equal in single-end mode when the files derive
  distinct keys, and in paired-end mode when the MiSeq names with another \<open>_R\<close> group
  have distinct stems, none of them the key of a forward read.
\<close>

theorem counters_and_entries:
  assumes "plain_designator (forward args)" and "plain_designator (reverse args)"
  shows
    "num_paired_readsets (read_file_sets args) =
       entries_holding 2 (fileSets (read_file_sets args)) \<and>
     entries_holding 1 (fileSets (read_file_sets args)) \<le>
       num_single_readsets (read_file_sets args) \<and>
     (truthy (input_se args) \<and> distinct (map single_end_key (items (input_se args))) \<longrightarrow>
      num_single_readsets (read_file_sets args) =
        entries_holding 1 (fileSets (read_file_sets args))) \<and>
     (\<not> truthy (input_se args) \<and>
      distinct (ambiguous_stems args (items (input_pe args))) \<and>
      set (ambiguous_stems args (items (input_pe args))) \<inter>
        fst ` set (forward_reads (read_file_sets args)) = {} \<longrightarrow>
      num_single_readsets (read_file_sets args) =
        entries_holding 1 (fileSets (read_file_sets args)))"
proof (cases "truthy (input_se args)")
  case True
  from single_counters_and_entries [OF True] True show ?thesis by blast
next
  case False
  from paired_counters_and_entries [OF False] False show ?thesis by blast
qed

text \<open>A pair, a reverse read alone and a forward read alone.\<close>

theorem counters_and_entries_witness:
  "plain_designator ''_1'' \<and> plain_designator ''_2'' \<and>
   fileSets (read_file_sets
      \<lparr>input_se = None, input_pe = Some [''r/s_1.fq'', ''r/s_2.fq'', ''r/t_2.fq'', ''r/u_1.fq''],
       forward = ''_1'', reverse = ''_2''\<rparr>) =
     [(''s'', Files [''r/s_1.fq'', ''r/s_2.fq'']), (''u'', Files [''r/u_1.fq'']),
      (''t'', Bare ''r/t_2.fq'')] \<and>
   num_paired_readsets (read_file_sets
      \<lparr>input_se = None, input_pe = Some [''r/s_1.fq'', ''r/s_2.fq'', ''r/t_2.fq'', ''r/u_1.fq''],
       forward = ''_1'', reverse = ''_2''\<rparr>) = 1 \<and>
   num_single_readsets (read_file_sets
      \<lparr>input_se = None, input_pe = Some [''r/s_1.fq'', ''r/s_2.fq'', ''r/t_2.fq'', ''r/u_1.fq''],
       forward = ''_1'', reverse = ''_2''\<rparr>) = 2"
proof -
  let ?args = "\<lparr>input_se = None,
       input_pe = Some [''r/s_1.fq'', ''r/s_2.fq'', ''r/t_2.fq'', ''r/u_1.fq''],
       forward = ''_1'', reverse = ''_2''\<rparr>"
  have h: "plain_designator (forward ?args)" "plain_designator (reverse ?args)"
    by (simp_all add: plain_designator_def)
  have v: "fileSets (read_file_sets ?args) =
     [(''s'', Files [''r/s_1.fq'', ''r/s_2.fq'']), (''u'', Files [''r/u_1.fq'']),
      (''t'', Bare ''r/t_2.fq'')]"
    by code_simp
  have m: "\<not> truthy (input_se ?args)" by (simp add: truthy_def)
  have a: "ambiguous_stems ?args (items (input_pe ?args)) = []" by code_simp
  from counters_and_entries [OF h] m a
  have "num_paired_readsets (read_file_sets ?args) = entries_holding 2 (fileSets (read_file_sets ?args))"
    and "num_single_readsets (read_file_sets ?args) = entries_holding 1 (fileSets (read_file_sets ?args))"
    by simp_all
  with h v show ?thesis by (simp add: entries_holding_def)
qed

subsection \<open>Which input files the result holds\<close>

text \<open>
  Which files of the input the result holds: in single-end mode the last file of each
  key, in paired-end mode the files that are \<^const>\<open>kept\<close>.
\<close>

lemma single_end_present_iff:
  assumes "truthy (input_se args)"
  shows "(\<exists>k e. (k, e) \<in> set (fileSets (read_file_sets args)) \<and> f \<in> set (entry_files e)) \<longleftrightarrow>
     last_with_key (items (input_se args)) (single_end_key f) = Some f"
proof
  assume "\<exists>k e. (k, e) \<in> set (fileSets (read_file_sets args)) \<and> f \<in> set (entry_files e)"
  then obtain k e where ke: "(k, e) \<in> set (fileSets (read_file_sets args))"
    and f: "f \<in> set (entry_files e)" by blast
  from read_file_sets_single_entry [OF assms ke] f
  have e: "e = Files [f]" and k: "k = single_end_key f" by auto
  from ke read_file_sets_distinct [of args]
  have "map_of (fileSets (read_file_sets args)) k = Some e" by simp
  then show "last_with_key (items (input_se args)) (single_end_key f) = Some f"
    unfolding read_file_sets_single [OF assms] e k
    by (simp add: print_totals_fields fold_single_end_lookup initial_def split: option.splits)
next
  assume l: "last_with_key (items (input_se args)) (single_end_key f) = Some f"
  then have "map_of (fileSets (read_file_sets args)) (single_end_key f) = Some (Files [f])"
    unfolding read_file_sets_single [OF assms]
    by (simp add: print_totals_fields fold_single_end_lookup)
  then have "(single_end_key f, Files [f]) \<in> set (fileSets (read_file_sets args))"
    by (rule map_of_SomeD)
  then show "\<exists>k e. (k, e) \<in> set (fileSets (read_file_sets args)) \<and> f \<in> set (entry_files e)"
    by force
qed

lemma last_with_key_distinct:
  "distinct (map single_end_key fs) \<Longrightarrow> f \<in> set fs \<Longrightarrow>
   last_with_key fs (single_end_key f) = Some f"
proof (induction fs)
  case Nil
  then show ?case by simp
next
  case (Cons g fs)
  show ?case
  proof (cases "f \<in> set fs")
    case True
    with Cons show ?thesis by simp
  next
    case False
    with Cons.prems have g: "g = f" by simp
    have "last_with_key fs (single_end_key f) = None"
    proof (rule ccontr)
      assume "last_with_key fs (single_end_key f) \<noteq> None"
      then obtain h where "last_with_key fs (single_end_key f) = Some h" by auto
      from last_with_key_SomeD [OF this]
      have "single_end_key f \<in> single_end_key ` set fs" by (metis imageI)
      with Cons.prems(1) g show False by simp
    qed
    with g show ?thesis by simp
  qed
qed

lemma paired_end_present_iff:
  assumes se: "\<not> truthy (input_se args)" and p: "p \<in> set (items (input_pe args))"
  shows "(\<exists>k e. (k, e) \<in> set (fileSets (read_file_sets args)) \<and> p \<in> set (entry_files e)) \<longleftrightarrow>
     kept args (items (input_pe args)) p"
proof -
  let ?fs = "items (input_pe args)"
  let ?D = "map_of (fileSets (read_file_sets args))"
  note d = read_file_sets_distinct [of args]
  have in_D: "(\<exists>k e. (k, e) \<in> set (fileSets (read_file_sets args)) \<and> p \<in> set (entry_files e)) \<longleftrightarrow>
      (\<exists>k e. ?D k = Some e \<and> p \<in> set (entry_files e))"
    using d by simp
  have other: "q \<noteq> p" if "last_of_class args ?fs c = Some q" "classify args p \<noteq> c" for q c
    using last_of_class_SomeD [OF that(1)] that(2) by auto
  show ?thesis
  proof (cases "classify args p")
    case (Forward k)
    have "(\<exists>k' e. ?D k' = Some e \<and> p \<in> set (entry_files e)) \<longleftrightarrow>
        (\<exists>e. ?D k = Some e \<and> p \<in> set (entry_files e))"
      using read_file_sets_paired_entry [OF se] Forward by force
    also have "\<dots> \<longleftrightarrow> last_of_class args ?fs (Forward k) = Some p"
      using other [of "Reverse k"] other [of "Ambiguous k"] Forward
      by (auto simp: read_file_sets_paired_entries [OF se] split: option.splits)
    finally show ?thesis by (simp add: in_D kept_def Forward)
  next
    case (Reverse k)
    have "(\<exists>k' e. ?D k' = Some e \<and> p \<in> set (entry_files e)) \<longleftrightarrow>
        (\<exists>e. ?D k = Some e \<and> p \<in> set (entry_files e))"
      using read_file_sets_paired_entry [OF se] Reverse by force
    also have "\<dots> \<longleftrightarrow> last_of_class args ?fs (Reverse k) = Some p \<and>
        (last_of_class args ?fs (Forward k) \<noteq> None \<or>
         last_of_class args ?fs (Ambiguous k) = None)"
      using other [of "Forward k"] other [of "Ambiguous k"] Reverse
      by (auto simp: read_file_sets_paired_entries [OF se] split: option.splits)
    finally show ?thesis by (simp add: in_D kept_def Reverse)
  next
    case (Ambiguous k)
    have "(\<exists>k' e. ?D k' = Some e \<and> p \<in> set (entry_files e)) \<longleftrightarrow>
        (\<exists>e. ?D k = Some e \<and> p \<in> set (entry_files e))"
      using read_file_sets_paired_entry [OF se] Ambiguous by force
    also have "\<dots> \<longleftrightarrow> last_of_class args ?fs (Ambiguous k) = Some p \<and>
        last_of_class args ?fs (Forward k) = None"
      using other [of "Forward k"] other [of "Reverse k"] Ambiguous
      by (auto simp: read_file_sets_paired_entries [OF se] split: option.splits)
    finally show ?thesis by (simp add: in_D kept_def Ambiguous)
  next
    case Undetermined
    have "\<not> (\<exists>k' e. ?D k' = Some e \<and> p \<in> set (entry_files e))"
      using read_file_sets_paired_entry [OF se] Undetermined by force
    then show ?thesis by (simp add: in_D kept_def Undetermined)
  qed
qed

text \<open>
  C1. The specification has every input file in an entry of the result. The paired-end file
  \<open>x.fastq\<close>, with the default designators, is neither a MiSeq name nor a name that
  ends with a designator: the loop prints that its status could not be determined, and
  the result is empty. Of the single-end files \<open>a/x.fastq\<close> and \<open>b/x.fastq\<close>, of the one
  key \<open>x\<close>, the result holds the second only.
\<close>

theorem unclassified_file_absent:
  "''x.fastq'' \<in> set (items (input_pe
      \<lparr>input_se = None, input_pe = Some [''x.fastq''], forward = ''_1'', reverse = ''_2''\<rparr>)) \<and>
   fileSets (read_file_sets
      \<lparr>input_se = None, input_pe = Some [''x.fastq''], forward = ''_1'', reverse = ''_2''\<rparr>) = [] \<and>
   stdout (read_file_sets
      \<lparr>input_se = None, input_pe = Some [''x.fastq''], forward = ''_1'', reverse = ''_2''\<rparr>) =
     [undetermined ''x.fastq''] \<and>
   fileSets (read_file_sets
      \<lparr>input_se = Some [''a/x.fastq'', ''b/x.fastq''], input_pe = None,
       forward = ''_1'', reverse = ''_2''\<rparr>) = [(''x'', Files [''b/x.fastq''])]"
  by code_simp

text \<open>
  C1, as amended. With designators that are plain strings: every file that an entry of
  the result holds is a file of the input collection the function processed (the
  single-end files when there are any, else the paired-end files), no file is held by
  two entries, and no key occurs twice. A single-end file is held by an entry exactly
  when it is the last input file of its key; so every single-end file is, when the files
  have distinct keys. A paired-end file is held by an entry exactly when it is kept: its
  direction is determined, no later file of the same kind has its key, a reverse read's
  key has a forward read or is the stem of no MiSeq name with another \<open>_R\<close> group, and
  the stem of such a MiSeq name is the key of no forward read.
\<close>

theorem entries_hold_input_files:
  assumes "plain_designator (forward args)" and "plain_designator (reverse args)"
  shows
    "(\<forall>k e p. (k, e) \<in> set (fileSets (read_file_sets args)) \<and> p \<in> set (entry_files e) \<longrightarrow>
        p \<in> set (if truthy (input_se args) then items (input_se args)
                 else items (input_pe args))) \<and>
     (\<forall>k1 e1 k2 e2 p.
        (k1, e1) \<in> set (fileSets (read_file_sets args)) \<and> p \<in> set (entry_files e1) \<and>
        (k2, e2) \<in> set (fileSets (read_file_sets args)) \<and> p \<in> set (entry_files e2) \<longrightarrow>
        k1 = k2 \<and> e1 = e2) \<and>
     distinct (map fst (fileSets (read_file_sets args))) \<and>
     (truthy (input_se args) \<longrightarrow>
        (\<forall>f. f \<in> set (items (input_se args)) \<longrightarrow>
           ((\<exists>k e. (k, e) \<in> set (fileSets (read_file_sets args)) \<and> f \<in> set (entry_files e)) \<longleftrightarrow>
            last_with_key (items (input_se args)) (single_end_key f) = Some f))) \<and>
     (truthy (input_se args) \<and> distinct (map single_end_key (items (input_se args))) \<longrightarrow>
        (\<forall>f. f \<in> set (items (input_se args)) \<longrightarrow>
           (\<exists>k e. (k, e) \<in> set (fileSets (read_file_sets args)) \<and> f \<in> set (entry_files e)))) \<and>
     (\<not> truthy (input_se args) \<longrightarrow>
        (\<forall>p. p \<in> set (items (input_pe args)) \<longrightarrow>
           ((\<exists>k e. (k, e) \<in> set (fileSets (read_file_sets args)) \<and> p \<in> set (entry_files e)) \<longleftrightarrow>
            kept args (items (input_pe args)) p)))"
proof -
  let ?d = "fileSets (read_file_sets args)"
  note d = read_file_sets_distinct [of args]
  have 1: "p \<in> set (if truthy (input_se args) then items (input_se args)
                 else items (input_pe args))"
    if "(k, e) \<in> set ?d" "p \<in> set (entry_files e)" for k e p
  proof (cases "truthy (input_se args)")
    case True
    from read_file_sets_single_entry [OF True that(1)] that(2) True show ?thesis by auto
  next
    case False
    from that(1) d have "map_of ?d k = Some e" by simp
    from read_file_sets_paired_entry [OF False this that(2)] False show ?thesis by simp
  qed
  have k: "k1 = k2"
    if "(k1, e1) \<in> set ?d" "p \<in> set (entry_files e1)"
      "(k2, e2) \<in> set ?d" "p \<in> set (entry_files e2)" for k1 e1 k2 e2 p
  proof (cases "truthy (input_se args)")
    case True
    from read_file_sets_single_entry [OF True that(1)] that(2)
      read_file_sets_single_entry [OF True that(3)] that(4)
    show ?thesis by auto
  next
    case False
    from that(1,3) d have "map_of ?d k1 = Some e1" "map_of ?d k2 = Some e2" by simp_all
    from read_file_sets_paired_entry [OF False this(1) that(2)]
      read_file_sets_paired_entry [OF False this(2) that(4)]
    show ?thesis by auto
  qed
  have 2: "k1 = k2 \<and> e1 = e2"
    if "(k1, e1) \<in> set ?d" "p \<in> set (entry_files e1)"
      "(k2, e2) \<in> set ?d" "p \<in> set (entry_files e2)" for k1 e1 k2 e2 p
  proof -
    have "k1 = k2" using that by (rule k)
    moreover from that(1,3) d have "map_of ?d k1 = Some e1" "map_of ?d k2 = Some e2"
      by simp_all
    ultimately show ?thesis by simp
  qed
  have 3: "(\<exists>k e. (k, e) \<in> set ?d \<and> f \<in> set (entry_files e)) \<longleftrightarrow>
      last_with_key (items (input_se args)) (single_end_key f) = Some f"
    if "truthy (input_se args)" for f
    using that by (rule single_end_present_iff)
  have 4: "\<exists>k e. (k, e) \<in> set ?d \<and> f \<in> set (entry_files e)"
    if "truthy (input_se args)" "distinct (map single_end_key (items (input_se args)))"
      "f \<in> set (items (input_se args))" for f
    using 3 [OF that(1), of f] last_with_key_distinct [OF that(2,3)] by simp
  have 5: "(\<exists>k e. (k, e) \<in> set ?d \<and> p \<in> set (entry_files e)) \<longleftrightarrow>
      kept args (items (input_pe args)) p"
    if "\<not> truthy (input_se args)" "p \<in> set (items (input_pe args))" for p
    using that by (rule paired_end_present_iff)
  from 1 2 d 3 4 5 show ?thesis by blast
qed

text \<open>
  A pair, a reverse read alone and a file of undetermined direction: the reverse read
  alone is held by an entry, the last file is not.
\<close>

theorem entries_hold_input_files_witness:
  "plain_designator ''_1'' \<and> plain_designator ''_2'' \<and>
   fileSets (read_file_sets
      \<lparr>input_se = None, input_pe = Some [''r/s_1.fq'', ''r/s_2.fq'', ''r/t_2.fq'', ''r/u.fq''],
       forward = ''_1'', reverse = ''_2''\<rparr>) =
     [(''s'', Files [''r/s_1.fq'', ''r/s_2.fq'']), (''t'', Bare ''r/t_2.fq'')] \<and>
   distinct (map fst (fileSets (read_file_sets
      \<lparr>input_se = None, input_pe = Some [''r/s_1.fq'', ''r/s_2.fq'', ''r/t_2.fq'', ''r/u.fq''],
       forward = ''_1'', reverse = ''_2''\<rparr>))) \<and>
   (\<exists>k e. (k, e) \<in> set (fileSets (read_file_sets
      \<lparr>input_se = None, input_pe = Some [''r/s_1.fq'', ''r/s_2.fq'', ''r/t_2.fq'', ''r/u.fq''],
       forward = ''_1'', reverse = ''_2''\<rparr>)) \<and> ''r/t_2.fq'' \<in> set (entry_files e)) \<and>
   \<not> (\<exists>k e. (k, e) \<in> set (fileSets (read_file_sets
      \<lparr>input_se = None, input_pe = Some [''r/s_1.fq'', ''r/s_2.fq'', ''r/t_2.fq'', ''r/u.fq''],
       forward = ''_1'', reverse = ''_2''\<rparr>)) \<and> ''r/u.fq'' \<in> set (entry_files e))"
proof -
  let ?args = "\<lparr>input_se = None,
       input_pe = Some [''r/s_1.fq'', ''r/s_2.fq'', ''r/t_2.fq'', ''r/u.fq''],
       forward = ''_1'', reverse = ''_2''\<rparr>"
  have h: "plain_designator (forward ?args)" "plain_designator (reverse ?args)"
    by (simp_all add: plain_designator_def)
  have v: "fileSets (read_file_sets ?args) =
     [(''s'', Files [''r/s_1.fq'', ''r/s_2.fq'']), (''t'', Bare ''r/t_2.fq'')]"
    by code_simp
  have m: "\<not> truthy (input_se ?args)" "''r/t_2.fq'' \<in> set (items (input_pe ?args))"
    "''r/u.fq'' \<in> set (items (input_pe ?args))"
    by (simp_all add: truthy_def items_def)
  have kt: "kept ?args (items (input_pe ?args)) ''r/t_2.fq''"
    by code_simp
  have ku: "\<not> kept ?args (items (input_pe ?args)) ''r/u.fq''"
    by code_simp
  note t = entries_hold_input_files [OF h]
  from t have 1: "distinct (map fst (fileSets (read_file_sets ?args)))" by blast
  from t m kt
  have 2: "\<exists>k e. (k, e) \<in> set (fileSets (read_file_sets ?args)) \<and>
      ''r/t_2.fq'' \<in> set (entry_files e)"
    by blast
  from t m ku
  have 3: "\<not> (\<exists>k e. (k, e) \<in> set (fileSets (read_file_sets ?args)) \<and>
      ''r/u.fq'' \<in> set (entry_files e))"
    by blast
  from h have "plain_designator ''_1''" "plain_designator ''_2''" by simp_all
  with v 1 2 3 show ?thesis by blast
qed

subsection \<open>The shapes of the values\<close>

text \<open>
  C9. The specification has the stem of every MiSeq name with another \<open>_R\<close> group, and
  every key with a reverse read and no forward read, hold a path itself. The paired-end
  file \<open>w_S1_L1_R3_1.fq\<close> is such a MiSeq name, with the stem \<open>w_S1_L1_R3_1\<close>; given
  with \<open>w_S1_L1_R3_1_S1_L1_R1_1.fq\<close>, a forward read of the very key \<open>w_S1_L1_R3_1\<close>,
  the key holds the list of the forward read and the first file is in no entry. Given
  with \<open>w_S1_L1_R3_1_S1_L1_R2_1.fq\<close>, a reverse read of that key without a forward
  read, the key holds the path of the first file, not of the reverse read.
\<close>

theorem invalid_R_stem_holds_list:
  "classify \<lparr>input_se = None,
       input_pe = Some [''w_S1_L1_R3_1.fq'', ''w_S1_L1_R3_1_S1_L1_R1_1.fq''],
       forward = ''_1'', reverse = ''_2''\<rparr> ''w_S1_L1_R3_1.fq'' = Ambiguous ''w_S1_L1_R3_1'' \<and>
   match_illumina ''w_S1_L1_R3_1'' = Some (''w'', ''_S1'', ''_L1'', ''_R3'', ''_1'') \<and>
   fileSets (read_file_sets \<lparr>input_se = None,
       input_pe = Some [''w_S1_L1_R3_1.fq'', ''w_S1_L1_R3_1_S1_L1_R1_1.fq''],
       forward = ''_1'', reverse = ''_2''\<rparr>) =
     [(''w_S1_L1_R3_1'', Files [''w_S1_L1_R3_1_S1_L1_R1_1.fq''])] \<and>
   reverse_reads (read_file_sets \<lparr>input_se = None,
       input_pe = Some [''w_S1_L1_R3_1.fq'', ''w_S1_L1_R3_1_S1_L1_R2_1.fq''],
       forward = ''_1'', reverse = ''_2''\<rparr>) =
     [(''w_S1_L1_R3_1'', ''w_S1_L1_R3_1_S1_L1_R2_1.fq'')] \<and>
   forward_reads (read_file_sets \<lparr>input_se = None,
       input_pe = Some [''w_S1_L1_R3_1.fq'', ''w_S1_L1_R3_1_S1_L1_R2_1.fq''],
       forward = ''_1'', reverse = ''_2''\<rparr>) = [] \<and>
   fileSets (read_file_sets \<lparr>input_se = None,
       input_pe = Some [''w_S1_L1_R3_1.fq'', ''w_S1_L1_R3_1_S1_L1_R2_1.fq''],
       forward = ''_1'', reverse = ''_2''\<rparr>) =
     [(''w_S1_L1_R3_1'', Bare ''w_S1_L1_R3_1.fq'')]"
  by code_simp

text \<open>
  C9, as amended. In paired-end mode, with designators that are plain strings, the values
  of \<open>fileSets\<close> have two shapes. A key whose last reverse read is \<open>rv\<close> and which has no
  forward read holds the path \<open>rv\<close> itself exactly when the key is the stem of no MiSeq
  name with another \<open>_R\<close> group. The stem of such a MiSeq name \<open>p\<close> holds the path \<open>p\<close>
  itself exactly when \<open>p\<close> is the last such file of the stem and no forward read has the
  stem as key. Every value is a path itself of one of these two kinds, under a key
  without forward read, or the list of the last forward read of its key, alone or
  followed by the last reverse read of the key. On a path of more than one character the
  caller's test \<open>len(fastq) > 1\<close> holds, and the command gets \<open>--input_pe\<close> with the
  first two characters of the path as the two files.
\<close>

theorem paired_end_value_shapes:
  assumes "\<not> truthy (input_se args)"
    and "plain_designator (forward args)" and "plain_designator (reverse args)"
  shows
    "(\<forall>k rv. last_of_class args (items (input_pe args)) (Reverse k) = Some rv \<and>
        last_of_class args (items (input_pe args)) (Forward k) = None \<longrightarrow>
        (map_of (fileSets (read_file_sets args)) k = Some (Bare rv) \<longleftrightarrow>
         last_of_class args (items (input_pe args)) (Ambiguous k) = None)) \<and>
     (\<forall>k p. p \<in> set (items (input_pe args)) \<and> classify args p = Ambiguous k \<longrightarrow>
        (map_of (fileSets (read_file_sets args)) k = Some (Bare p) \<longleftrightarrow>
         last_of_class args (items (input_pe args)) (Ambiguous k) = Some p \<and>
         last_of_class args (items (input_pe args)) (Forward k) = None)) \<and>
     (\<forall>k e. map_of (fileSets (read_file_sets args)) k = Some e \<longrightarrow>
        (\<exists>p. e = Bare p \<and>
           last_of_class args (items (input_pe args)) (Forward k) = None \<and>
           (last_of_class args (items (input_pe args)) (Ambiguous k) = Some p \<or>
            last_of_class args (items (input_pe args)) (Ambiguous k) = None \<and>
            last_of_class args (items (input_pe args)) (Reverse k) = Some p)) \<or>
        (\<exists>fwd. last_of_class args (items (input_pe args)) (Forward k) = Some fwd \<and>
           (e = Files [fwd] \<and>
              last_of_class args (items (input_pe args)) (Reverse k) = None \<or>
            (\<exists>rv. e = Files [fwd, rv] \<and>
               last_of_class args (items (input_pe args)) (Reverse k) = Some rv)))) \<and>
     (\<forall>p. 1 < length p \<longrightarrow>
        1 < py_len (Bare p) \<and>
        main_input_option args (Bare p) =
          Some ('' --input_pe '' @ [p ! 0] @ '' '' @ [p ! 1] @
                '' --forward '' @ forward args @ '' --reverse '' @ reverse args))"
proof -
  note se = assms(1)
  let ?fs = "items (input_pe args)"
  let ?D = "map_of (fileSets (read_file_sets args))"
  have 1: "?D k = Some (Bare rv) \<longleftrightarrow> last_of_class args ?fs (Ambiguous k) = None"
    if r: "last_of_class args ?fs (Reverse k) = Some rv"
      and f: "last_of_class args ?fs (Forward k) = None" for k rv
  proof (cases "last_of_class args ?fs (Ambiguous k)")
    case None
    with r f show ?thesis by (simp add: read_file_sets_paired_entries [OF se])
  next
    case (Some q)
    from last_of_class_SomeD [OF Some] last_of_class_SomeD [OF r] have "q \<noteq> rv" by auto
    with Some f show ?thesis by (simp add: read_file_sets_paired_entries [OF se])
  qed
  have 2: "?D k = Some (Bare p) \<longleftrightarrow>
      last_of_class args ?fs (Ambiguous k) = Some p \<and> last_of_class args ?fs (Forward k) = None"
    if p: "p \<in> set ?fs" "classify args p = Ambiguous k" for k p
  proof (cases "last_of_class args ?fs (Forward k)")
    case (Some fwd)
    then show ?thesis
      by (simp add: read_file_sets_paired_entries [OF se] split: option.splits)
  next
    case None
    from p have "last_of_class args ?fs (Ambiguous k) \<noteq> None"
      by (auto simp: last_of_class_None)
    with None show ?thesis
      by (auto simp: read_file_sets_paired_entries [OF se])
  qed
  have 3: "(\<exists>p. e = Bare p \<and> last_of_class args ?fs (Forward k) = None \<and>
           (last_of_class args ?fs (Ambiguous k) = Some p \<or>
            last_of_class args ?fs (Ambiguous k) = None \<and>
            last_of_class args ?fs (Reverse k) = Some p)) \<or>
        (\<exists>fwd. last_of_class args ?fs (Forward k) = Some fwd \<and>
           (e = Files [fwd] \<and> last_of_class args ?fs (Reverse k) = None \<or>
            (\<exists>rv. e = Files [fwd, rv] \<and> last_of_class args ?fs (Reverse k) = Some rv)))"
    if "?D k = Some e" for k e
    using that
    by (auto simp: read_file_sets_paired_entries [OF se] split: option.splits)
  have 4: "1 < py_len (Bare p) \<and>
        main_input_option args (Bare p) =
          Some ('' --input_pe '' @ [p ! 0] @ '' '' @ [p ! 1] @
                '' --forward '' @ forward args @ '' --reverse '' @ reverse args)"
    if "1 < length p" for p
    using that main_input_option_Bare [OF that] by simp
  from 1 2 3 4 show ?thesis by blast
qed

text \<open>
  The reverse read \<open>sampleA_2.fastq.gz\<close> and the MiSeq name
  \<open>weird_S1_L001_R3_001.fastq.gz\<close>, with the default designators: each key holds the
  path itself, and the caller passes \<open>s\<close> and \<open>a\<close>, the first two characters of the
  reverse read, as a pair.
\<close>

theorem paired_end_value_shapes_witness:
  "\<not> truthy (input_se \<lparr>input_se = None,
       input_pe = Some [''sampleA_2.fastq.gz'', ''weird_S1_L001_R3_001.fastq.gz''],
       forward = ''_1'', reverse = ''_2''\<rparr>) \<and>
   plain_designator ''_1'' \<and> plain_designator ''_2'' \<and>
   map_of (fileSets (read_file_sets \<lparr>input_se = None,
       input_pe = Some [''sampleA_2.fastq.gz'', ''weird_S1_L001_R3_001.fastq.gz''],
       forward = ''_1'', reverse = ''_2''\<rparr>)) ''sampleA'' = Some (Bare ''sampleA_2.fastq.gz'') \<and>
   map_of (fileSets (read_file_sets \<lparr>input_se = None,
       input_pe = Some [''sampleA_2.fastq.gz'', ''weird_S1_L001_R3_001.fastq.gz''],
       forward = ''_1'', reverse = ''_2''\<rparr>)) ''weird_S1_L001_R3_001'' =
     Some (Bare ''weird_S1_L001_R3_001.fastq.gz'') \<and>
   main_input_option \<lparr>input_se = None,
       input_pe = Some [''sampleA_2.fastq.gz'', ''weird_S1_L001_R3_001.fastq.gz''],
       forward = ''_1'', reverse = ''_2''\<rparr> (Bare ''sampleA_2.fastq.gz'') =
     Some '' --input_pe s a --forward _1 --reverse _2''"
proof -
  let ?args = "\<lparr>input_se = None,
       input_pe = Some [''sampleA_2.fastq.gz'', ''weird_S1_L001_R3_001.fastq.gz''],
       forward = ''_1'', reverse = ''_2''\<rparr>"
  let ?fs = "items (input_pe ?args)"
  have h: "\<not> truthy (input_se ?args)" "plain_designator (forward ?args)"
    "plain_designator (reverse ?args)"
    by (simp_all add: truthy_def plain_designator_def)
  have r: "last_of_class ?args ?fs (Reverse ''sampleA'') = Some ''sampleA_2.fastq.gz''"
    by code_simp
  have f: "last_of_class ?args ?fs (Forward ''sampleA'') = None"
    by code_simp
  have a: "last_of_class ?args ?fs (Ambiguous ''sampleA'') = None"
    by code_simp
  have w: "''weird_S1_L001_R3_001.fastq.gz'' \<in> set ?fs"
    by (simp add: items_def)
  have c: "classify ?args ''weird_S1_L001_R3_001.fastq.gz'' = Ambiguous ''weird_S1_L001_R3_001''"
    by code_simp
  have wa: "last_of_class ?args ?fs (Ambiguous ''weird_S1_L001_R3_001'') =
      Some ''weird_S1_L001_R3_001.fastq.gz''"
    by code_simp
  have wf: "last_of_class ?args ?fs (Forward ''weird_S1_L001_R3_001'') = None"
    by code_simp
  have l: "1 < length ''sampleA_2.fastq.gz''" by simp
  note t = paired_end_value_shapes [OF h]
  from t r f a
  have 1: "map_of (fileSets (read_file_sets ?args)) ''sampleA'' = Some (Bare ''sampleA_2.fastq.gz'')"
    by blast
  from t w c wa wf
  have 2: "map_of (fileSets (read_file_sets ?args)) ''weird_S1_L001_R3_001'' =
     Some (Bare ''weird_S1_L001_R3_001.fastq.gz'')"
    by blast
  from t l
  have 3: "main_input_option ?args (Bare ''sampleA_2.fastq.gz'') =
     Some ('' --input_pe '' @ [''sampleA_2.fastq.gz'' ! 0] @ '' '' @ [''sampleA_2.fastq.gz'' ! 1] @
                '' --forward '' @ forward ?args @ '' --reverse '' @ reverse ?args)"
    by blast
  from 1 2 3 h show ?thesis by simp
qed

subsection \<open>MiSeq names with another read group\<close>

text \<open>
  C5. The specification has every paired-end file whose stem matches the MiSeq pattern
  with an \<open>_R\<close> group other than \<open>_R1\<close> and \<open>_R2\<close> in the result, under its stem. Of the
  two such files \<open>a/w_S1_L1_R3_1.fq\<close> and \<open>b/w_S1_L1_R3_1.fq\<close>, of one stem, the
  result holds the second only; and with \<open>weird_S1_L001_R3_001_S1_L001_R1_001.fastq.gz\<close>,
  a forward read whose key is the stem of \<open>weird_S1_L001_R3_001.fastq.gz\<close>, the stem
  holds the list of the forward read.
\<close>

theorem ambiguous_file_overwritten:
  "get_readFile_components ''a/w_S1_L1_R3_1.fq'' = (''a'', ''w_S1_L1_R3_1'', ''.fq'') \<and>
   match_illumina ''w_S1_L1_R3_1'' = Some (''w'', ''_S1'', ''_L1'', ''_R3'', ''_1'') \<and>
   fileSets (read_file_sets \<lparr>input_se = None,
       input_pe = Some [''a/w_S1_L1_R3_1.fq'', ''b/w_S1_L1_R3_1.fq''],
       forward = ''_1'', reverse = ''_2''\<rparr>) =
     [(''w_S1_L1_R3_1'', Bare ''b/w_S1_L1_R3_1.fq'')] \<and>
   get_readFile_components ''weird_S1_L001_R3_001.fastq.gz'' =
     ('''', ''weird_S1_L001_R3_001'', ''.fastq.gz'') \<and>
   match_illumina ''weird_S1_L001_R3_001'' =
     Some (''weird'', ''_S1'', ''_L001'', ''_R3'', ''_001'') \<and>
   fileSets (read_file_sets \<lparr>input_se = None,
       input_pe = Some [''weird_S1_L001_R3_001.fastq.gz'',
         ''weird_S1_L001_R3_001_S1_L001_R1_001.fastq.gz''],
       forward = ''_1'', reverse = ''_2''\<rparr>) =
     [(''weird_S1_L001_R3_001'', Files [''weird_S1_L001_R3_001_S1_L001_R1_001.fastq.gz''])]"
  by code_simp

text \<open>
  C5, as amended. A paired-end file whose stem matches the MiSeq pattern with an \<open>_R\<close>
  group that is neither \<open>_R1\<close> nor \<open>_R2\<close>: in any state, the loop prints the two lines
  of the warning, stores the path itself under the full stem, which is not the sample
  name the pattern extracted, and adds one to the single count. When the file is among
  the paired-end input, with designators that are plain strings, the two lines are in
  what the function printed and the single count is at least the number of such files
  in the input; the stem holds the path of the file in the result exactly when the file
  is the last such file of its stem and no forward read has the stem as key, and the file
  is in no other entry. When the file is the only input, the result is the one entry of
  the file under its stem, with single count 1 and paired count 0.
\<close>

theorem ambiguous_miseq_file:
  assumes "get_readFile_components fastq = (file_path, stem, full_ext)"
    and "match_illumina stem = Some (baseName, g2, g3, read, g5)"
    and "read \<noteq> ''_R1''" and "read \<noteq> ''_R2''"
  shows
    "paired_end_body args fastq st =
       st\<lparr>stdout := stdout st @ [undetermined fastq, miseq_hint],
          fileSets := AList.update stem (Bare fastq) (fileSets st),
          num_single_readsets := num_single_readsets st + 1\<rparr> \<and>
     stem \<noteq> baseName \<and>
     (\<not> truthy (input_se args) \<and>
      plain_designator (forward args) \<and> plain_designator (reverse args) \<and>
      fastq \<in> set (items (input_pe args)) \<longrightarrow>
        undetermined fastq \<in> set (stdout (read_file_sets args)) \<and>
        miseq_hint \<in> set (stdout (read_file_sets args)) \<and>
        stem \<in> set (ambiguous_stems args (items (input_pe args))) \<and>
        length (ambiguous_stems args (items (input_pe args))) \<le>
          num_single_readsets (read_file_sets args) \<and>
        (map_of (fileSets (read_file_sets args)) stem = Some (Bare fastq) \<longleftrightarrow>
           last_of_class args (items (input_pe args)) (Ambiguous stem) = Some fastq \<and>
           last_of_class args (items (input_pe args)) (Forward stem) = None) \<and>
        (\<forall>k e. map_of (fileSets (read_file_sets args)) k = Some e \<and>
           fastq \<in> set (entry_files e) \<longrightarrow> k = stem \<and> e = Bare fastq)) \<and>
     (input_se args = None \<and> input_pe args = Some [fastq] \<longrightarrow>
        fileSets (read_file_sets args) = [(stem, Bare fastq)] \<and>
        num_single_readsets (read_file_sets args) = 1 \<and>
        num_paired_readsets (read_file_sets args) = 0)"
proof -
  let ?fs = "items (input_pe args)"
  let ?D = "map_of (fileSets (read_file_sets args))"
  have c: "classify args fastq = Ambiguous stem"
    using assms by (rule classify_ambiguous)
  have 1: "paired_end_body args fastq st =
       st\<lparr>stdout := stdout st @ [undetermined fastq, miseq_hint],
          fileSets := AList.update stem (Bare fastq) (fileSets st),
          num_single_readsets := num_single_readsets st + 1\<rparr>"
    by (simp add: paired_end_body_classify c)
  have 2: "stem \<noteq> baseName"
    using assms(2) by (rule match_illumina_proper)
  have 3: "undetermined fastq \<in> set (stdout (read_file_sets args)) \<and>
        miseq_hint \<in> set (stdout (read_file_sets args)) \<and>
        stem \<in> set (ambiguous_stems args ?fs) \<and>
        length (ambiguous_stems args ?fs) \<le> num_single_readsets (read_file_sets args) \<and>
        (?D stem = Some (Bare fastq) \<longleftrightarrow>
           last_of_class args ?fs (Ambiguous stem) = Some fastq \<and>
           last_of_class args ?fs (Forward stem) = None) \<and>
        (\<forall>k e. ?D k = Some e \<and> fastq \<in> set (entry_files e) \<longrightarrow> k = stem \<and> e = Bare fastq)"
    if se: "\<not> truthy (input_se args)" and f: "fastq \<in> set ?fs"
  proof -
    from fold_classify_warned [OF f c, of initial]
    have "undetermined fastq \<in> set (stdout (classified args))"
      "miseq_hint \<in> set (stdout (classified args))"
      by (simp_all add: classified_def)
    with read_file_sets_paired_stdout(1) [OF se]
    have w: "undetermined fastq \<in> set (stdout (read_file_sets args))"
      "miseq_hint \<in> set (stdout (read_file_sets args))"
      by blast+
    from f c have a: "stem \<in> set (ambiguous_stems args ?fs)"
      by (auto simp: set_ambiguous_stems)
    have n: "length (ambiguous_stems args ?fs) \<le> num_single_readsets (read_file_sets args)"
      by (simp add: read_file_sets_paired [OF se] print_totals_fields paired_end_counts)
    from f c have ne: "last_of_class args ?fs (Ambiguous stem) \<noteq> None"
      by (auto simp: last_of_class_None)
    have i: "?D stem = Some (Bare fastq) \<longleftrightarrow>
           last_of_class args ?fs (Ambiguous stem) = Some fastq \<and>
           last_of_class args ?fs (Forward stem) = None"
      using ne
      by (auto simp: read_file_sets_paired_entries [OF se] split: option.splits)
    have u: "k = stem \<and> e = Bare fastq"
      if e: "?D k = Some e" and m: "fastq \<in> set (entry_files e)" for k e
    proof -
      from read_file_sets_paired_entry [OF se e m] c have k: "k = stem" by simp
      have "e = Bare fastq"
      proof (cases "last_of_class args ?fs (Forward stem)")
        case None
        with e k ne m show ?thesis
          by (auto simp: read_file_sets_paired_entries [OF se] split: option.splits)
      next
        case (Some fwd)
        from last_of_class_SomeD [OF Some] c have "fwd \<noteq> fastq" by auto
        moreover have "rv \<noteq> fastq"
          if "last_of_class args ?fs (Reverse stem) = Some rv" for rv
          using last_of_class_SomeD [OF that] c by auto
        ultimately show ?thesis
          using e k m Some
          by (auto simp: read_file_sets_paired_entries [OF se] split: option.splits)
      qed
      with k show ?thesis by simp
    qed
    from w a n i u show ?thesis by blast
  qed
  have 4: "fileSets (read_file_sets args) = [(stem, Bare fastq)] \<and>
        num_single_readsets (read_file_sets args) = 1 \<and>
        num_paired_readsets (read_file_sets args) = 0"
    if "input_se args = None" "input_pe args = Some [fastq]"
    using that c by (rule read_file_sets_one_ambiguous)
  from 1 2 3 4 show ?thesis by blast
qed

text \<open>
  The file \<open>weird_S1_L001_R3_001.fastq.gz\<close>, alone and after the reverse read
  \<open>sampleA_2.fastq.gz\<close>, with the default designators.
\<close>

theorem ambiguous_miseq_file_witness:
  "get_readFile_components ''weird_S1_L001_R3_001.fastq.gz'' =
     ('''', ''weird_S1_L001_R3_001'', ''.fastq.gz'') \<and>
   match_illumina ''weird_S1_L001_R3_001'' = Some (''weird'', ''_S1'', ''_L001'', ''_R3'', ''_001'') \<and>
   ''_R3'' \<noteq> ''_R1'' \<and> ''_R3'' \<noteq> ''_R2'' \<and>
   fileSets (read_file_sets \<lparr>input_se = None, input_pe = Some [''weird_S1_L001_R3_001.fastq.gz''],
       forward = ''_1'', reverse = ''_2''\<rparr>) =
     [(''weird_S1_L001_R3_001'', Bare ''weird_S1_L001_R3_001.fastq.gz'')] \<and>
   num_single_readsets (read_file_sets \<lparr>input_se = None,
       input_pe = Some [''weird_S1_L001_R3_001.fastq.gz''],
       forward = ''_1'', reverse = ''_2''\<rparr>) = 1 \<and>
   \<not> truthy (input_se \<lparr>input_se = None,
       input_pe = Some [''sampleA_2.fastq.gz'', ''weird_S1_L001_R3_001.fastq.gz''],
       forward = ''_1'', reverse = ''_2''\<rparr>) \<and>
   plain_designator ''_1'' \<and> plain_designator ''_2'' \<and>
   undetermined ''weird_S1_L001_R3_001.fastq.gz'' \<in> set (stdout (read_file_sets
      \<lparr>input_se = None,
       input_pe = Some [''sampleA_2.fastq.gz'', ''weird_S1_L001_R3_001.fastq.gz''],
       forward = ''_1'', reverse = ''_2''\<rparr>)) \<and>
   map_of (fileSets (read_file_sets \<lparr>input_se = None,
       input_pe = Some [''sampleA_2.fastq.gz'', ''weird_S1_L001_R3_001.fastq.gz''],
       forward = ''_1'', reverse = ''_2''\<rparr>)) ''weird_S1_L001_R3_001'' =
     Some (Bare ''weird_S1_L001_R3_001.fastq.gz'')"
proof -
  let ?one = "\<lparr>input_se = None, input_pe = Some [''weird_S1_L001_R3_001.fastq.gz''],
       forward = ''_1'', reverse = ''_2''\<rparr>"
  let ?two = "\<lparr>input_se = None,
       input_pe = Some [''sampleA_2.fastq.gz'', ''weird_S1_L001_R3_001.fastq.gz''],
       forward = ''_1'', reverse = ''_2''\<rparr>"
  have h1: "get_readFile_components ''weird_S1_L001_R3_001.fastq.gz'' =
     ('''', ''weird_S1_L001_R3_001'', ''.fastq.gz'')"
    by code_simp
  have h2: "match_illumina ''weird_S1_L001_R3_001'' =
     Some (''weird'', ''_S1'', ''_L001'', ''_R3'', ''_001'')"
    by code_simp
  have h3: "''_R3'' \<noteq> ''_R1''" and h4: "''_R3'' \<noteq> ''_R2''"
    by simp_all
  have m1: "input_se ?one = None" "input_pe ?one = Some [''weird_S1_L001_R3_001.fastq.gz'']"
    by simp_all
  have m2: "\<not> truthy (input_se ?two)" "plain_designator (forward ?two)"
    "plain_designator (reverse ?two)"
    "''weird_S1_L001_R3_001.fastq.gz'' \<in> set (items (input_pe ?two))"
    by (simp_all add: truthy_def items_def plain_designator_def)
  have la: "last_of_class ?two (items (input_pe ?two)) (Ambiguous ''weird_S1_L001_R3_001'') =
      Some ''weird_S1_L001_R3_001.fastq.gz''"
    by code_simp
  have lf: "last_of_class ?two (items (input_pe ?two)) (Forward ''weird_S1_L001_R3_001'') = None"
    by code_simp
  from ambiguous_miseq_file [OF h1 h2 h3 h4, of ?one] m1
  have 1: "fileSets (read_file_sets ?one) =
       [(''weird_S1_L001_R3_001'', Bare ''weird_S1_L001_R3_001.fastq.gz'')] \<and>
     num_single_readsets (read_file_sets ?one) = 1"
    by blast
  from ambiguous_miseq_file [OF h1 h2 h3 h4, of ?two] m2 la lf
  have 2: "undetermined ''weird_S1_L001_R3_001.fastq.gz'' \<in> set (stdout (read_file_sets ?two)) \<and>
     map_of (fileSets (read_file_sets ?two)) ''weird_S1_L001_R3_001'' =
       Some (Bare ''weird_S1_L001_R3_001.fastq.gz'')"
    by blast
  from h1 h2 1 2 m2 show ?thesis by simp
qed

end
